theory Spec2Isabelle
  imports Main "HOL-Library.AList" "HOL-Library.Sublist" "HOL-Library.Multiset"
begin

section \<open>The provider registry of \<^verbatim>\<open>MultiAIService\<close>\<close>

text \<open>
  \<^verbatim>\<open>services/AIService.js\<close> exports one \<^verbatim>\<open>MultiAIService\<close> object. Its field
  \<^verbatim>\<open>providers\<close> is an object used as a dictionary from provider keys to configuration
  objects, and \<^verbatim>\<open>lastError\<close> is a dictionary from provider keys to messages. Both are
  association lists of the object's own properties here, in the order in which the
  properties were created, which for \<^verbatim>\<open>providers\<close> is the order of registration.
  The field \<^verbatim>\<open>client\<close> only records whether a client handle is present.

  Both objects are created by an object literal, so their prototype is
  \<^verbatim>\<open>Object.prototype\<close>, and reading \<^verbatim>\<open>this.providers[key]\<close> for a key that is not an own
  property gives what \<^verbatim>\<open>Object.prototype\<close> has under that name. The service writes the
  property \<^verbatim>\<open>available\<close> on what it has read; \<open>inherited\<close> keeps what it has written on
  an object reached in that way, under the name that reached it.

  \<^verbatim>\<open>setTimeout\<close> belongs to the runtime. The pending callbacks are kept in \<open>timers\<close>,
  each with the time at which it is due, next to a clock \<open>now\<close> in milliseconds. Every
  callback the service registers has the same body (lines 37 to 42), so a pending
  callback is identified by the provider key it closes over.
\<close>

record provider =
  name :: string
  client :: bool
  enabled :: bool
  priority :: int
  available :: bool

record service =
  providers :: "(string \<times> provider) list"
  lastError :: "(string \<times> string option) list"
  timers :: "(nat \<times> string) list"
  now :: nat
  inherited :: "(string \<times> bool) list"

text \<open>
  \<^verbatim>\<open>Array.prototype.sort\<close> with a comparator is stable, so for a consistent comparator
  its result is the stable insertion of each element; \<open>sortWith\<close> is that sort for a
  comparator returning a number, as \<^verbatim>\<open>(a, b) => a[1].priority - b[1].priority\<close> does.
\<close>

fun insertWith :: "('a \<Rightarrow> 'a \<Rightarrow> int) \<Rightarrow> 'a \<Rightarrow> 'a list \<Rightarrow> 'a list" where
  "insertWith cmp x [] = [x]"
| "insertWith cmp x (y # ys) =
     (if cmp x y \<le> 0 then x # y # ys else y # insertWith cmp x ys)"

fun sortWith :: "('a \<Rightarrow> 'a \<Rightarrow> int) \<Rightarrow> 'a list \<Rightarrow> 'a list" where
  "sortWith cmp [] = []"
| "sortWith cmp (x # xs) = insertWith cmp x (sortWith cmp xs)"

text \<open>
  \<^verbatim>\<open>Object.entries\<close> enumerates the own properties of an object in the order of the
  language: first the keys that are array indices, in ascending numeric order, then the
  other keys in the order of their creation. An array index is the decimal numeral,
  without a leading zero, of a number below 4294967295.
\<close>

definition isDigit :: "char \<Rightarrow> bool" where
  "isDigit c = (48 \<le> (of_char c :: nat) \<and> (of_char c :: nat) \<le> 57)"

definition numericValue :: "string \<Rightarrow> int" where
  "numericValue key = foldl (\<lambda>n c. 10 * n + (of_char c - 48)) 0 key"

definition isArrayIndex :: "string \<Rightarrow> bool" where
  "isArrayIndex key =
     (key \<noteq> [] \<and> list_all isDigit key \<and> (if hd key = CHR ''0'' then key = ''0'' else True)
      \<and> numericValue key < 4294967295)"

definition compareIndex :: "string \<times> 'a \<Rightarrow> string \<times> 'a \<Rightarrow> int" where
  "compareIndex a b = numericValue (fst a) - numericValue (fst b)"

definition objectEntries :: "(string \<times> 'a) list \<Rightarrow> (string \<times> 'a) list" where
  "objectEntries properties =
     sortWith compareIndex (filter (\<lambda>entry. isArrayIndex (fst entry)) properties)
     @ filter (\<lambda>entry. \<not> isArrayIndex (fst entry)) properties"

definition comparePriority :: "string \<times> provider \<Rightarrow> string \<times> provider \<Rightarrow> int" where
  "comparePriority a b = priority (snd a) - priority (snd b)"

definition usable :: "string \<times> provider \<Rightarrow> bool" where
  "usable entry = (enabled (snd entry) \<and> available (snd entry))"

definition availableEntries :: "service \<Rightarrow> (string \<times> provider) list" where
  "availableEntries s = sortWith comparePriority (filter usable (objectEntries (providers s)))"

text \<open>
  \<^verbatim>\<open>getAvailableProviders\<close> (lines 24 to 29). The method assigns to no field; the state
  it returns is the state it was given.
\<close>

definition getAvailableProviders :: "service \<Rightarrow> string list \<times> service" where
  "getAvailableProviders s = (map fst (availableEntries s), s)"

text \<open>
  The value of \<^verbatim>\<open>this.providers[key]\<close>: the entry, when the key is an own property;
  otherwise the function or object that \<^verbatim>\<open>Object.prototype\<close> has under that name, when
  it has one (all of them are truthy); otherwise \<^verbatim>\<open>undefined\<close>, which is \<open>None\<close>.
  \<^verbatim>\<open>Object.prototype\<close> is taken with the twelve properties the engine gives it. The
  service can add one to them: under the key \<^verbatim>\<open>__proto__\<close> the inherited object is
  \<^verbatim>\<open>Object.prototype\<close> itself, and a write of \<^verbatim>\<open>available\<close> on it makes
  \<^verbatim>\<open>this.providers["available"]\<close> a boolean. So \<open>lookupProvider\<close> is the value of
  \<^verbatim>\<open>this.providers[key]\<close> in the states where \<open>inherited\<close> has nothing under
  \<^verbatim>\<open>__proto__\<close>, and for every key but \<^verbatim>\<open>available\<close> in the others.
\<close>

datatype property = OwnEntry provider | InheritedObject

definition objectPrototypeNames :: "string list" where
  "objectPrototypeNames =
     [''constructor'', ''__defineGetter__'', ''__defineSetter__'', ''hasOwnProperty'',
      ''__lookupGetter__'', ''__lookupSetter__'', ''isPrototypeOf'', ''propertyIsEnumerable'',
      ''toString'', ''valueOf'', ''__proto__'', ''toLocaleString'']"

definition lookupProvider :: "service \<Rightarrow> string \<Rightarrow> property option" where
  "lookupProvider s key =
     (case map_of (providers s) key of
        Some config \<Rightarrow> Some (OwnEntry config)
      | None \<Rightarrow> if key \<in> set objectPrototypeNames then Some InheritedObject else None)"

text \<open>
  Exceptions of the engine: \<^verbatim>\<open>JSON.parse\<close> raises a \<^verbatim>\<open>SyntaxError\<close>; reading or writing
  a property of \<^verbatim>\<open>undefined\<close> or \<^verbatim>\<open>null\<close>, and converting an object without a usable
  \<^verbatim>\<open>toString\<close> to a string, raise a \<^verbatim>\<open>TypeError\<close>.
\<close>

datatype exn = SyntaxError | TypeError

text \<open>
  The assignment \<^verbatim>\<open>this.providers[key].available = b\<close> (lines 36 and 39).
  \<open>assignAvailable\<close> writes the property on the object that \<^verbatim>\<open>this.providers[key]\<close> has
  given; \<open>setAvailable\<close> is the whole statement, which raises when
  \<^verbatim>\<open>this.providers[key]\<close> is \<^verbatim>\<open>undefined\<close>.
\<close>

definition assignAvailable :: "string \<Rightarrow> property \<Rightarrow> bool \<Rightarrow> service \<Rightarrow> service" where
  "assignAvailable key object b s =
     (case object of
        OwnEntry config \<Rightarrow>
          s\<lparr>providers := AList.update key (config\<lparr>available := b\<rparr>) (providers s)\<rparr>
      | InheritedObject \<Rightarrow> s\<lparr>inherited := AList.update key b (inherited s)\<rparr>)"

definition setAvailable :: "string \<Rightarrow> bool \<Rightarrow> service \<Rightarrow> exn + service" where
  "setAvailable key b s =
     (case lookupProvider s key of
        None \<Rightarrow> Inl TypeError
      | Some object \<Rightarrow> Inr (assignAvailable key object b s))"

text \<open>
  The body of the callback given to \<^verbatim>\<open>setTimeout\<close> (lines 38 to 41): the assignment is
  made only if \<^verbatim>\<open>this.providers[key]\<close> is truthy at that time.
\<close>

definition restoreProvider :: "string \<Rightarrow> service \<Rightarrow> service" where
  "restoreProvider key s =
     (case lookupProvider s key of
        None \<Rightarrow> s
      | Some object \<Rightarrow> assignAvailable key object True s)"

text \<open>
  \<^verbatim>\<open>setTimeout(callback, delay)\<close> of Node.js, for a delay that is an integer: a delay
  below 1 or above 2147483647 is replaced by 1.
\<close>

definition timerDelay :: "int \<Rightarrow> nat" where
  "timerDelay delay = (if 1 \<le> delay \<and> delay \<le> 2147483647 then nat delay else 1)"

definition setTimeout :: "string \<Rightarrow> int \<Rightarrow> service \<Rightarrow> service" where
  "setTimeout key delay s = s\<lparr>timers := timers s @ [(now s + timerDelay delay, key)]\<rparr>"

text \<open>
  \<^verbatim>\<open>markProviderUnavailable\<close> (lines 31 to 43). The second argument is optional, with
  default 300000. The method returns at once when \<^verbatim>\<open>this.providers[key]\<close> is falsy;
  otherwise it writes \<^verbatim>\<open>available\<close> on that object and registers the callback.
\<close>

definition markProviderUnavailable :: "string \<Rightarrow> int option \<Rightarrow> service \<Rightarrow> service" where
  "markProviderUnavailable key duration s =
     (case lookupProvider s key of
        None \<Rightarrow> s
      | Some object \<Rightarrow>
          setTimeout key (case duration of None \<Rightarrow> 300000 | Some d \<Rightarrow> d)
            (assignAvailable key object False s))"

text \<open>
  The passage of time: \<open>elapse t\<close> moves the clock to \<open>t\<close> and runs the callbacks that
  are due by then, earliest first (callbacks due at the same time run in the order in
  which they were registered), removing them from the pending ones.
\<close>

definition elapse :: "nat \<Rightarrow> service \<Rightarrow> service" where
  "elapse t s =
     fold restoreProvider
       (map snd (sort_key fst (filter (\<lambda>timer. fst timer \<le> t) (timers s))))
       (s\<lparr>timers := filter (\<lambda>timer. \<not> fst timer \<le> t) (timers s), now := max (now s) t\<rparr>)"

text \<open>Whether a key is enabled and available in a state (the filter of line 26).\<close>

definition isUsable :: "service \<Rightarrow> string \<Rightarrow> bool" where
  "isUsable s key =
     (case map_of (providers s) key of None \<Rightarrow> False | Some config \<Rightarrow> enabled config \<and> available config)"

text \<open>The registry the constructor builds (lines 7 to 21), with or without the API key.\<close>

definition initialService :: "bool \<Rightarrow> service" where
  "initialService hasKey =
     \<lparr>providers =
        [(''groq'', \<lparr>name = ''Groq (Llama)'', client = hasKey, enabled = hasKey,
                    priority = 1, available = True\<rparr>)],
      lastError = [], timers = [], now = 0, inherited = []\<rparr>"

section \<open>Values, strings and errors\<close>

text \<open>
  The values \<^verbatim>\<open>JSON.parse\<close> returns, which are also the values a provider may return as
  the content of a message and the values an error may carry as \<^verbatim>\<open>status\<close> or
  \<^verbatim>\<open>code\<close>. A number is kept as the text \<^verbatim>\<open>Number.prototype.toString\<close> gives for it
  (\<^verbatim>\<open>0\<close> for both zeros): the code only tests numbers for truth, compares them with
  429 and 402, and prints them in a template literal. An object is the list of its own
  properties. \<^verbatim>\<open>undefined\<close> is \<open>None\<close> of the option type. A \<open>char\<close> stands for a code
  unit below 256.
\<close>

datatype json =
    JNull
  | JBool bool
  | JNumber string
  | JString string
  | JArray "json list"
  | JObject "(string \<times> json) list"

fun truthy :: "json \<Rightarrow> bool" where
  "truthy JNull = False"
| "truthy (JBool b) = b"
| "truthy (JNumber n) = (n \<noteq> ''0'' \<and> n \<noteq> ''NaN'')"
| "truthy (JString s) = (s \<noteq> [])"
| "truthy (JArray xs) = True"
| "truthy (JObject kvs) = True"

fun truthyOpt :: "json option \<Rightarrow> bool" where
  "truthyOpt None = False"
| "truthyOpt (Some v) = truthy v"

text \<open>\<^verbatim>\<open>typeof v === "object"\<close>.\<close>

fun typeofObject :: "json \<Rightarrow> bool" where
  "typeofObject JNull = True"
| "typeofObject (JArray xs) = True"
| "typeofObject (JObject kvs) = True"
| "typeofObject v = False"

text \<open>\<^verbatim>\<open>typeof v === "string"\<close>, for a value that may be \<^verbatim>\<open>undefined\<close>.\<close>

fun typeofString :: "json option \<Rightarrow> bool" where
  "typeofString (Some (JString s)) = True"
| "typeofString v = False"

text \<open>
  \<^verbatim>\<open>String.prototype.toLowerCase\<close>. The code units below 256 that it changes are the
  letters A to Z (65 to 90) and the accented capitals 192 to 222 without the
  multiplication sign 215; the lower-case letter is 32 higher, which is bit 5 set.
\<close>

definition isUpperCase :: "char \<Rightarrow> bool" where
  "isUpperCase c =
     (65 \<le> (of_char c :: nat) \<and> (of_char c :: nat) \<le> 90
      \<or> 192 \<le> (of_char c :: nat) \<and> (of_char c :: nat) \<le> 222 \<and> (of_char c :: nat) \<noteq> 215)"

fun lowerChar :: "char \<Rightarrow> char" where
  "lowerChar (Char b0 b1 b2 b3 b4 b5 b6 b7) =
     (if isUpperCase (Char b0 b1 b2 b3 b4 b5 b6 b7) then Char b0 b1 b2 b3 b4 True b6 b7
      else Char b0 b1 b2 b3 b4 b5 b6 b7)"

definition toLowerCase :: "string \<Rightarrow> string" where
  "toLowerCase s = map lowerChar s"

text \<open>\<^verbatim>\<open>String.prototype.includes\<close>: the needle occurs at some position of the text.\<close>

fun str_includes :: "string \<Rightarrow> string \<Rightarrow> bool" where
  "str_includes [] needle = (needle = [])"
| "str_includes (c # cs) needle = (prefix needle (c # cs) \<or> str_includes cs needle)"

text \<open>
  An error object, as far as the service reads it: \<^verbatim>\<open>message\<close> (a string, or absent),
  \<^verbatim>\<open>status\<close> and \<^verbatim>\<open>code\<close>. \<open>Error m\<close> is \<^verbatim>\<open>new Error(m)\<close>.
\<close>

record jsError =
  message :: "string option"
  status :: "json option"
  code :: "json option"

definition Error :: "string \<Rightarrow> jsError" where
  "Error m = \<lparr>message = Some m, status = None, code = None\<rparr>"

text \<open>\<^verbatim>\<open>_isBalanceError\<close> (lines 253 to 264).\<close>

definition errorMessageOf :: "jsError \<Rightarrow> string" where
  "errorMessageOf error =
     (case message error of
        None \<Rightarrow> []
      | Some m \<Rightarrow> if toLowerCase m \<noteq> [] then toLowerCase m else [])"

definition errorCodeOf :: "jsError \<Rightarrow> json option" where
  "errorCodeOf error =
     (if truthyOpt (status error) then status error
      else if truthyOpt (code error) then code error
      else Some (JString []))"

definition isBalanceError :: "jsError \<Rightarrow> bool" where
  "isBalanceError error =
     (let errorMessage = errorMessageOf error;
          errorCode = errorCodeOf error
      in str_includes errorMessage ''insufficient''
         \<or> str_includes errorMessage ''quota''
         \<or> str_includes errorMessage ''balance''
         \<or> errorCode = Some (JNumber ''429'')
         \<or> errorCode = Some (JNumber ''402''))"

section \<open>Extraction of JSON from a provider's text\<close>

text \<open>
  Reading one of the properties \<^verbatim>\<open>nextAction\<close>, \<^verbatim>\<open>step\<close>, \<^verbatim>\<open>timeline\<close> of a value. No
  prototype has a property of these names, so only an object's own properties count.
\<close>

fun getProp :: "json \<Rightarrow> string \<Rightarrow> exn + json option" where
  "getProp JNull key = Inl TypeError"
| "getProp (JObject kvs) key = Inr (map_of kvs key)"
| "getProp v key = Inr None"

text \<open>The assignment \<^verbatim>\<open>parsed.nextAction = v\<close> to an object.\<close>

fun setProp :: "json \<Rightarrow> string \<Rightarrow> json \<Rightarrow> json" where
  "setProp (JObject kvs) key v = JObject (AList.update key v kvs)"
| "setProp parsed key v = parsed"

text \<open>
  The conversion to a string in a template literal. An array is joined with commas,
  \<^verbatim>\<open>null\<close> elements giving the empty string. An object gives \<^verbatim>\<open>[object Object]\<close> through
  \<^verbatim>\<open>Object.prototype.toString\<close>, unless an own property \<^verbatim>\<open>toString\<close> (which is never
  callable in a parsed value) hides that method: then the conversion raises.
\<close>

fun toStringJS :: "json \<Rightarrow> exn + string"
  and joinJS :: "json list \<Rightarrow> exn + string" where
  "toStringJS JNull = Inr ''null''"
| "toStringJS (JBool b) = Inr (if b then ''true'' else ''false'')"
| "toStringJS (JNumber n) = Inr n"
| "toStringJS (JString s) = Inr s"
| "toStringJS (JArray xs) = joinJS xs"
| "toStringJS (JObject kvs) =
     (if map_of kvs ''toString'' \<noteq> None then Inl TypeError else Inr ''[object Object]'')"
| "joinJS [] = Inr []"
| "joinJS (x # xs) =
     (case (if x = JNull then Inr [] else toStringJS x) of
        Inl e \<Rightarrow> Inl e
      | Inr a \<Rightarrow>
          if xs = [] then Inr a
          else (case joinJS xs of Inl e \<Rightarrow> Inl e | Inr b \<Rightarrow> Inr (a @ '','' @ b)))"

fun toStringOpt :: "json option \<Rightarrow> exn + string" where
  "toStringOpt None = Inr ''undefined''"
| "toStringOpt (Some v) = toStringJS v"

text \<open>
  The right-hand side of the assignment in lines 330 to 333 (and 351 to 354), for a
  \<^verbatim>\<open>nextAction\<close> that is an object or an array:
  \<^verbatim>\<open>step || `${step} (Timeline: ${timeline})` || "Seek legal counsel immediately"\<close>.
\<close>

definition timelineText :: "json option \<Rightarrow> json option \<Rightarrow> exn + string" where
  "timelineText step timeline =
     (case toStringOpt step of
        Inl e \<Rightarrow> Inl e
      | Inr a \<Rightarrow>
          (case toStringOpt timeline of
             Inl e \<Rightarrow> Inl e
           | Inr b \<Rightarrow> Inr (a @ '' (Timeline: '' @ b @ '')'')))"

definition flattenNextAction :: "json \<Rightarrow> exn + json" where
  "flattenNextAction nextAction =
     (case getProp nextAction ''step'' of
        Inl e \<Rightarrow> Inl e
      | Inr step \<Rightarrow>
          (case (if truthyOpt step then step else None) of
             Some v \<Rightarrow> Inr v
           | None \<Rightarrow>
               (case getProp nextAction ''timeline'' of
                  Inl e \<Rightarrow> Inl e
                | Inr timeline \<Rightarrow>
                    (case timelineText step timeline of
                       Inl e \<Rightarrow> Inl e
                     | Inr text \<Rightarrow>
                         if truthy (JString text) then Inr (JString text)
                         else Inr (JString ''Seek legal counsel immediately'')))))"

text \<open>Lines 329 to 336 (and 350 to 357): the normalisation of a parsed value.\<close>

definition normalizeNextAction :: "json \<Rightarrow> exn + json" where
  "normalizeNextAction parsed =
     (case getProp parsed ''nextAction'' of
        Inl e \<Rightarrow> Inl e
      | Inr None \<Rightarrow> Inr parsed
      | Inr (Some nextAction) \<Rightarrow>
          if truthy nextAction \<and> typeofObject nextAction then
            (case flattenNextAction nextAction of
               Inl e \<Rightarrow> Inl e
             | Inr v \<Rightarrow> Inr (setProp parsed ''nextAction'' v))
          else Inr parsed)"

text \<open>
  The regular expressions of lines 339 and 345, read as the backtracking matcher reads
  them. Each piece takes the text still to be matched and a continuation for the rest
  of the pattern; a greedy piece tries the longer match first, a lazy one the shorter.
  \<open>isSpace\<close> is the class \<^verbatim>\<open>\s\<close>, which is also what \<^verbatim>\<open>trim\<close> removes.
\<close>

definition isSpace :: "char \<Rightarrow> bool" where
  "isSpace c = ((of_char c :: nat) \<in> {9, 10, 11, 12, 13, 32, 160})"

definition lit :: "string \<Rightarrow> string \<Rightarrow> (string \<Rightarrow> 'a option) \<Rightarrow> 'a option" where
  "lit l r k = (if prefix l r then k (drop (length l) r) else None)"

fun spaces :: "string \<Rightarrow> (string \<Rightarrow> 'a option) \<Rightarrow> 'a option" where
  "spaces [] k = k []"
| "spaces (c # cs) k =
     (if isSpace c then (case spaces cs k of Some m \<Rightarrow> Some m | None \<Rightarrow> k (c # cs))
      else k (c # cs))"

fun anyGreedy :: "string \<Rightarrow> (string \<Rightarrow> 'a option) \<Rightarrow> 'a option" where
  "anyGreedy [] k = k []"
| "anyGreedy (c # cs) k = (case anyGreedy cs k of Some m \<Rightarrow> Some m | None \<Rightarrow> k (c # cs))"

fun anyLazy :: "string \<Rightarrow> string \<Rightarrow> (string \<Rightarrow> string \<Rightarrow> 'a option) \<Rightarrow> 'a option" where
  "anyLazy captured [] k = k captured []"
| "anyLazy captured (c # cs) k =
     (case k captured (c # cs) of Some m \<Rightarrow> Some m | None \<Rightarrow> anyLazy (captured @ [c]) cs k)"

text \<open>
  \<^verbatim>\<open>String.prototype.match\<close> without the global flag: the pattern is tried at each
  position from the left; the result holds the matched text and the first group.
\<close>

record matched =
  whole :: string
  group1 :: "string option"

fun search :: "(string \<Rightarrow> matched option) \<Rightarrow> string \<Rightarrow> matched option" where
  "search pat [] = pat []"
| "search pat (c # cs) = (case pat (c # cs) of Some m \<Rightarrow> Some m | None \<Rightarrow> search pat cs)"

definition consumed :: "string \<Rightarrow> string \<Rightarrow> string" where
  "consumed r rest = take (length r - length rest) r"

text \<open>\<^verbatim>\<open>/```json\s*([\s\S]*?)\s*```/\<close> at one position.\<close>

definition fencePattern :: "string \<Rightarrow> matched option" where
  "fencePattern r =
     lit ''```json'' r (\<lambda>r1.
       spaces r1 (\<lambda>r2.
         anyLazy [] r2 (\<lambda>captured r3.
           spaces r3 (\<lambda>r4.
             lit ''```'' r4 (\<lambda>rest.
               Some \<lparr>whole = consumed r rest, group1 = Some captured\<rparr>)))))"

text \<open>\<^verbatim>\<open>/\{[\s\S]*\}/\<close> at one position.\<close>

definition bracePattern :: "string \<Rightarrow> matched option" where
  "bracePattern r =
     lit ''{'' r (\<lambda>r1.
       anyGreedy r1 (\<lambda>r2.
         lit ''}'' r2 (\<lambda>rest.
           Some \<lparr>whole = consumed r rest, group1 = None\<rparr>)))"

text \<open>Line 339: the first pattern, or else the second.\<close>

definition jsonMatch :: "string \<Rightarrow> matched option" where
  "jsonMatch text =
     (case search fencePattern text of
        Some m \<Rightarrow> Some m
      | None \<Rightarrow> search bracePattern text)"

text \<open>Line 343: \<^verbatim>\<open>jsonMatch[1] || jsonMatch[0]\<close>.\<close>

definition contentToParse :: "matched \<Rightarrow> string" where
  "contentToParse m =
     (case group1 m of
        Some g \<Rightarrow> if g \<noteq> [] then g else whole m
      | None \<Rightarrow> whole m)"

text \<open>
  Line 345: \<^verbatim>\<open>.replace(/^```json\s*|```\s*$/g, "")\<close>. The first alternative matches at
  the start of the text only, the second one only up to the end of the text, where it
  leaves nothing behind; text that no alternative matches is copied.
\<close>

definition leadingFence :: "string \<Rightarrow> string option" where
  "leadingFence r = lit ''```json'' r (\<lambda>r1. spaces r1 (\<lambda>rest. Some rest))"

definition trailingFence :: "string \<Rightarrow> string option" where
  "trailingFence r =
     lit ''```'' r (\<lambda>r1. spaces r1 (\<lambda>rest. if rest = [] then Some rest else None))"

fun copyToTrailingFence :: "string \<Rightarrow> string" where
  "copyToTrailingFence [] = []"
| "copyToTrailingFence (c # cs) =
     (case trailingFence (c # cs) of
        Some rest \<Rightarrow> []
      | None \<Rightarrow> c # copyToTrailingFence cs)"

definition replaceFences :: "string \<Rightarrow> string" where
  "replaceFences text =
     (case leadingFence text of
        Some rest \<Rightarrow> copyToTrailingFence rest
      | None \<Rightarrow> copyToTrailingFence text)"

definition trim :: "string \<Rightarrow> string" where
  "trim text = rev (dropWhile isSpace (rev (dropWhile isSpace text)))"

text \<open>The literal of lines 364 to 383.\<close>

definition fallbackResult :: json where
  "fallbackResult =
     JObject
      [(''situation'', JString ''Unable to analyze situation automatically''),
       (''relevantLaws'', JArray [JString ''Please consult with a legal professional'']),
       (''recommendedSteps'',
          JArray [JString ''Contact PAO (Public Attorney's Office) at (02) 8426-2075'',
                  JString ''Visit your local barangay hall'',
                  JString ''Gather all relevant documents'']),
       (''watchOutFor'',
          JArray [JString ''Ensure all claims are documented with evidence'',
                  JString ''Be aware of prescription periods for filing cases'']),
       (''contacts'',
          JObject [(''pao'', JString ''PAO: (02) 8426-2075''),
                   (''barangay'', JString ''Local Barangay Hall''),
                   (''pnp'', JString ''PNP Emergency: 911''),
                   (''dswd'', JString ''DSWD Hotline: 1343'')]),
       (''nextAction'', JString ''Seek immediate legal counsel from PAO'')]"

text \<open>
  \<^verbatim>\<open>_extractJSON\<close> (lines 324 to 385). \<^verbatim>\<open>JSON.parse\<close> is a function of the language, not
  of this repository: it is the parameter \<open>parse\<close>, with \<open>None\<close> where it raises.
  \<open>parseAndNormalize\<close> is the body of both \<^verbatim>\<open>try\<close> blocks (lines 326 to 336 and 347 to
  357); every exception it raises is caught by the \<^verbatim>\<open>catch\<close> that follows.
\<close>

definition parseAndNormalize :: "(string \<Rightarrow> json option) \<Rightarrow> string \<Rightarrow> exn + json" where
  "parseAndNormalize parse text =
     (case parse text of
        None \<Rightarrow> Inl SyntaxError
      | Some parsed \<Rightarrow> normalizeNextAction parsed)"

definition extractJSON :: "(string \<Rightarrow> json option) \<Rightarrow> string \<Rightarrow> exn + json" where
  "extractJSON parse text =
     (case parseAndNormalize parse text of
        Inr parsed \<Rightarrow> Inr parsed
      | Inl e \<Rightarrow>
          (case jsonMatch text of
             Some m \<Rightarrow>
               (case parseAndNormalize parse (trim (replaceFences (contentToParse m))) of
                  Inr parsed \<Rightarrow> Inr parsed
                | Inl e' \<Rightarrow> Inr fallbackResult)
           | None \<Rightarrow> Inr fallbackResult))"

text \<open>
  The one text that the \<^verbatim>\<open>catch\<close> block hands to \<^verbatim>\<open>JSON.parse\<close> (lines 343 to 347), if
  line 339 finds a match.
\<close>

definition candidateText :: "string \<Rightarrow> string option" where
  "candidateText text =
     map_option (\<lambda>m. trim (replaceFences (contentToParse m))) (jsonMatch text)"

section \<open>The failover loops\<close>

text \<open>
  What lies outside the repository is a parameter of the model: \<^verbatim>\<open>JSON.parse\<close>,
  \<^verbatim>\<open>JSON.stringify\<close> on the \<^verbatim>\<open>lastError\<close> object, the error object the engine
  creates for an exception of its own (\<open>engineError\<close>), and the Groq client. A call of the
  client, together with the reading of \<^verbatim>\<open>response.choices[0].message.content\<close>, either
  raises an error or returns the content. The three call sites differ in their prompt
  and parameters, so each has its own function of the method's arguments:
  \<open>groqSummary\<close> for lines 127 to 140 (the content is a string there, since reading
  \<^verbatim>\<open>text.length\<close> and \<^verbatim>\<open>text.substring\<close> of anything else raises), \<open>groqAnalysis\<close> for
  lines 281 to 290, and \<open>groqChat\<close> for lines 310 to 318, whose content may be any value.

  One call of a method runs without interruption in the model: what other requests or
  timers do while the call awaits the client is not part of it.
\<close>

datatype 'a outcome = Raises jsError | Returns 'a

record runtime =
  JSON_parse :: "string \<Rightarrow> json option"
  JSON_stringify :: "(string \<times> string option) list \<Rightarrow> string"
  groqSummary :: "string \<Rightarrow> string \<Rightarrow> string outcome"
  groqAnalysis :: "string \<Rightarrow> string \<Rightarrow> string outcome"
  groqChat :: "string \<Rightarrow> string \<Rightarrow> json option outcome"
  engineError :: "exn \<Rightarrow> jsError"

text \<open>
  The \<^verbatim>\<open>catch\<close> block of each loop (lines 154 to 162, 199 to 205 and 239 to 245, the
  same statements three times).
\<close>

definition handleFailure :: "string \<Rightarrow> jsError \<Rightarrow> service \<Rightarrow> service" where
  "handleFailure provider error s =
     (let s1 = s\<lparr>lastError := AList.update provider (message error) (lastError s)\<rparr>
      in if isBalanceError error then markProviderUnavailable provider (Some 3600000) s1
         else markProviderUnavailable provider (Some 60000) s1)"

text \<open>
  \<^verbatim>\<open>generateFinalSummary\<close> (lines 46 to 173). The body of the \<^verbatim>\<open>try\<close> block does nothing
  for a provider other than \<^verbatim>\<open>groq\<close>, and the loop goes on to the next one.
\<close>

fun finalSummaryLoop ::
  "runtime \<Rightarrow> string \<Rightarrow> string \<Rightarrow> string list \<Rightarrow> service \<Rightarrow> (jsError + json) \<times> service" where
  "finalSummaryLoop rt fullTranscript category [] s =
     (Inl (Error (''Failed to generate summary with all providers. Last errors: ''
                   @ JSON_stringify rt (lastError s))), s)"
| "finalSummaryLoop rt fullTranscript category (provider # rest) s =
     (if provider = ''groq'' then
        (case groqSummary rt fullTranscript category of
           Returns text \<Rightarrow>
             (case extractJSON (JSON_parse rt) text of
                Inr summary \<Rightarrow> (Inr summary, s)
              | Inl e \<Rightarrow>
                  finalSummaryLoop rt fullTranscript category rest
                    (handleFailure provider (engineError rt e) s))
         | Raises error \<Rightarrow>
             finalSummaryLoop rt fullTranscript category rest (handleFailure provider error s))
      else finalSummaryLoop rt fullTranscript category rest s)"

definition generateFinalSummary ::
  "runtime \<Rightarrow> string \<Rightarrow> string \<Rightarrow> service \<Rightarrow> (jsError + json) \<times> service" where
  "generateFinalSummary rt fullTranscript category s =
     (case getAvailableProviders s of
        (providerKeys, s1) \<Rightarrow>
          if length providerKeys = 0
          then (Inl (Error ''No AI providers available for summarization''), s1)
          else finalSummaryLoop rt fullTranscript category providerKeys s1)"

text \<open>\<^verbatim>\<open>_analyzeLegalWithProvider\<close> (lines 266 to 294).\<close>

definition analyzeLegalWithProvider ::
  "runtime \<Rightarrow> string \<Rightarrow> string \<Rightarrow> string \<Rightarrow> json outcome" where
  "analyzeLegalWithProvider rt provider transcript category =
     (if provider = ''groq'' then
        (case groqAnalysis rt transcript category of
           Returns text \<Rightarrow>
             (case extractJSON (JSON_parse rt) text of
                Inr result \<Rightarrow> Returns result
              | Inl e \<Rightarrow> Raises (engineError rt e))
         | Raises error \<Rightarrow> Raises error)
      else Raises (Error (''Provider not configured: '' @ provider)))"

text \<open>\<^verbatim>\<open>analyzeLegalSituation\<close> (lines 177 to 211).\<close>

fun analyzeLoop ::
  "runtime \<Rightarrow> string \<Rightarrow> string \<Rightarrow> string list \<Rightarrow> service \<Rightarrow> (jsError + json) \<times> service" where
  "analyzeLoop rt transcript category [] s = (Inl (Error ''All AI providers failed''), s)"
| "analyzeLoop rt transcript category (provider # rest) s =
     (case analyzeLegalWithProvider rt provider transcript category of
        Returns result \<Rightarrow> (Inr result, s)
      | Raises error \<Rightarrow> analyzeLoop rt transcript category rest (handleFailure provider error s))"

definition analyzeLegalSituation ::
  "runtime \<Rightarrow> string \<Rightarrow> string \<Rightarrow> service \<Rightarrow> (jsError + json) \<times> service" where
  "analyzeLegalSituation rt transcript category s =
     (case getAvailableProviders s of
        (providerKeys, s1) \<Rightarrow>
          if length providerKeys = 0 then (Inl (Error ''No AI providers available''), s1)
          else analyzeLoop rt transcript category providerKeys s1)"

text \<open>\<^verbatim>\<open>_generateResponseWithProvider\<close> (lines 296 to 322).\<close>

definition generateResponseWithProvider ::
  "runtime \<Rightarrow> string \<Rightarrow> string \<Rightarrow> string \<Rightarrow> json option outcome" where
  "generateResponseWithProvider rt provider userMessage context =
     (if provider = ''groq'' then groqChat rt userMessage context
      else Raises (Error (''Provider not configured: '' @ provider)))"

text \<open>
  The body of the \<^verbatim>\<open>try\<close> block of \<^verbatim>\<open>generateResponse\<close> (lines 222 to 233): the call,
  and the \<^verbatim>\<open>throw\<close> of line 230 when the result is falsy or not a string.
\<close>

definition tryResponse :: "runtime \<Rightarrow> string \<Rightarrow> string \<Rightarrow> string \<Rightarrow> string outcome" where
  "tryResponse rt provider userMessage context =
     (case generateResponseWithProvider rt provider userMessage context of
        Raises error \<Rightarrow> Raises error
      | Returns result \<Rightarrow>
          if \<not> truthyOpt result \<or> \<not> typeofString result
          then Raises (Error (''Invalid response from '' @ provider))
          else (case result of
                  Some (JString text) \<Rightarrow> Returns text
                | _ \<Rightarrow> Raises (Error (''Invalid response from '' @ provider))))"

text \<open>\<^verbatim>\<open>generateResponse\<close> (lines 213 to 251).\<close>

fun responseLoop ::
  "runtime \<Rightarrow> string \<Rightarrow> string \<Rightarrow> string list \<Rightarrow> service \<Rightarrow> (jsError + string) \<times> service" where
  "responseLoop rt userMessage context [] s =
     (Inr ''Pasensya na, lahat ng AI providers ay hindi available sa ngayon.'', s)"
| "responseLoop rt userMessage context (provider # rest) s =
     (case tryResponse rt provider userMessage context of
        Returns result \<Rightarrow> (Inr result, s)
      | Raises error \<Rightarrow> responseLoop rt userMessage context rest (handleFailure provider error s))"

definition generateResponse ::
  "runtime \<Rightarrow> string \<Rightarrow> string \<Rightarrow> service \<Rightarrow> (jsError + string) \<times> service" where
  "generateResponse rt userMessage context s =
     (case getAvailableProviders s of
        (providerKeys, s1) \<Rightarrow>
          if length providerKeys = 0
          then (Inr ''Pasensya na, walang available na AI service. Please check your API keys.'', s1)
          else responseLoop rt userMessage context providerKeys s1)"

section \<open>The specification's wording of three functions\<close>

text \<open>
  The classification as the specification words it (its section 4.4): two more words in
  the message, and the code \<^verbatim>\<open>insufficient_quota\<close>. An older copy of the service in
  the repository has this list.
\<close>

definition isBalanceError_spec :: "jsError \<Rightarrow> bool" where
  "isBalanceError_spec error =
     (let errorMessage = errorMessageOf error
      in str_includes errorMessage ''insufficient''
         \<or> str_includes errorMessage ''quota''
         \<or> str_includes errorMessage ''balance''
         \<or> str_includes errorMessage ''billing''
         \<or> str_includes errorMessage ''limit exceeded''
         \<or> status error = Some (JNumber ''429'') \<or> code error = Some (JNumber ''429'')
         \<or> status error = Some (JNumber ''402'') \<or> code error = Some (JNumber ''402'')
         \<or> status error = Some (JString ''insufficient_quota'')
         \<or> code error = Some (JString ''insufficient_quota''))"

text \<open>
  Section 4.3 of the specification: parse the full text; else search for a fenced
  block, \<^emph>\<open>optionally\<close> tagged \<^verbatim>\<open>json\<close>, and parse its interior; else parse the span from
  the first \<^verbatim>\<open>{\<close> to the last \<^verbatim>\<open>}\<close>; the first success wins, and the fixed literal is
  returned when every attempt fails. The untagged fence is the pattern
  \<^verbatim>\<open>/```\s*([\s\S]*?)\s*```/\<close> of the older copy of the service.
\<close>

definition untaggedFencePattern :: "string \<Rightarrow> matched option" where
  "untaggedFencePattern r =
     lit ''```'' r (\<lambda>r1.
       spaces r1 (\<lambda>r2.
         anyLazy [] r2 (\<lambda>captured r3.
           spaces r3 (\<lambda>r4.
             lit ''```'' r4 (\<lambda>rest.
               Some \<lparr>whole = consumed r rest, group1 = Some captured\<rparr>)))))"

definition fencedInterior :: "string \<Rightarrow> string option" where
  "fencedInterior text =
     (case search fencePattern text of
        Some m \<Rightarrow> group1 m
      | None \<Rightarrow>
          (case search untaggedFencePattern text of
             Some m \<Rightarrow> group1 m
           | None \<Rightarrow> None))"

definition braceSpan :: "string \<Rightarrow> string option" where
  "braceSpan text = map_option whole (search bracePattern text)"

fun firstSuccess :: "(string \<Rightarrow> json option) \<Rightarrow> string list \<Rightarrow> json" where
  "firstSuccess parse [] = fallbackResult"
| "firstSuccess parse (candidate # rest) =
     (case parseAndNormalize parse candidate of
        Inr parsed \<Rightarrow> parsed
      | Inl e \<Rightarrow> firstSuccess parse rest)"

definition extractJSON_spec :: "(string \<Rightarrow> json option) \<Rightarrow> string \<Rightarrow> json" where
  "extractJSON_spec parse text =
     firstSuccess parse
       (text # (case fencedInterior text of Some interior \<Rightarrow> [interior] | None \<Rightarrow> [])
             @ (case braceSpan text of Some span \<Rightarrow> [span] | None \<Rightarrow> []))"

text \<open>
  The selection as the specification words it (its sections 3 and 4.1): the keys of the
  enabled and available entries, ascending by priority, ties broken by registration
  order.
\<close>

definition getAvailableProviders_spec :: "service \<Rightarrow> string list" where
  "getAvailableProviders_spec s = map fst (sortWith comparePriority (filter usable (providers s)))"

section \<open>Sample surroundings\<close>

text \<open>
  Concrete parameters at which the theorems below are instantiated. \<open>sampleParse\<close>
  agrees with \<^verbatim>\<open>JSON.parse\<close> on the texts it is applied to below: it parses four texts,
  and every other text it is given there is not JSON. \<open>sampleStringify\<close> is
  \<^verbatim>\<open>JSON.stringify\<close> on a \<^verbatim>\<open>lastError\<close> object whose keys and messages need no escaping
  and whose keys are not array indices; properties whose value is \<^verbatim>\<open>undefined\<close> are
  left out.
\<close>

definition sampleParse :: "string \<Rightarrow> json option" where
  \<open>sampleParse text =
     (if text = ''{"nextAction":{"step":"Call PAO","timeline":"within 24h"}}'' then
        Some (JObject [(''nextAction'',
                JObject [(''step'', JString ''Call PAO''), (''timeline'', JString ''within 24h'')])])
      else if text = ''{"situation":"x"}'' then Some (JObject [(''situation'', JString ''x'')])
      else if text = ''{}'' then Some (JObject [])
      else if text = ''[1]'' then Some (JArray [JNumber ''1''])
      else None)\<close>

definition quoted :: "string \<Rightarrow> string" where
  "quoted text = CHR 0x22 # text @ [CHR 0x22]"

fun stringifyFields :: "(string \<times> string option) list \<Rightarrow> string list" where
  "stringifyFields [] = []"
| "stringifyFields ((key, None) # rest) = stringifyFields rest"
| "stringifyFields ((key, Some text) # rest) =
     (quoted key @ '':'' @ quoted text) # stringifyFields rest"

fun commaSeparated :: "string list \<Rightarrow> string" where
  "commaSeparated [] = []"
| "commaSeparated [x] = x"
| "commaSeparated (x # y # rest) = x @ '','' @ commaSeparated (y # rest)"

definition sampleStringify :: "(string \<times> string option) list \<Rightarrow> string" where
  "sampleStringify entries = ''{'' @ commaSeparated (stringifyFields entries) @ ''}''"

definition sampleRuntime :: "string outcome \<Rightarrow> json option outcome \<Rightarrow> runtime" where
  "sampleRuntime structured chat =
     \<lparr>JSON_parse = sampleParse,
      JSON_stringify = sampleStringify,
      groqSummary = (\<lambda>fullTranscript category. structured),
      groqAnalysis = (\<lambda>transcript category. structured),
      groqChat = (\<lambda>userMessage context. chat),
      engineError = (\<lambda>e. Error ''Unexpected token'')\<rparr>"

text \<open>An error with status 429, as the client raises it when the quota is used up.\<close>

definition rateLimited :: jsError where
  "rateLimited = \<lparr>message = Some ''Rate limit reached'', status = Some (JNumber ''429''), code = None\<rparr>"

text \<open>
  The removal of an entry, \<^verbatim>\<open>delete this.providers[key]\<close>. The service never removes
  an entry itself; the callback of \<^verbatim>\<open>markProviderUnavailable\<close> provides for it.
\<close>

definition removeProvider :: "string \<Rightarrow> service \<Rightarrow> service" where
  "removeProvider key s = s\<lparr>providers := AList.delete key (providers s)\<rparr>"

text \<open>A registry with the given entries, and an entry that is enabled and available.\<close>

definition sampleProvider :: "int \<Rightarrow> provider" where
  "sampleProvider p =
     \<lparr>name = ''Sample'', client = True, enabled = True, priority = p, available = True\<rparr>"

definition sampleRegistry :: "(string \<times> provider) list \<Rightarrow> service" where
  "sampleRegistry entries =
     \<lparr>providers = entries, lastError = [], timers = [], now = 0, inherited = []\<rparr>"

section \<open>Properties of the selection\<close>

lemma mset_insertWith: "mset (insertWith cmp x xs) = add_mset x (mset xs)"
  by (induction xs) auto

lemma mset_sortWith: "mset (sortWith cmp xs) = mset xs"
  by (induction xs) (auto simp: mset_insertWith)

lemma set_insertWith: "set (insertWith cmp x xs) = insert x (set xs)"
  by (induction xs) auto

lemma set_sortWith: "set (sortWith cmp xs) = set xs"
  by (induction xs) (auto simp: set_insertWith)

lemma sorted_insertWith:
  "sorted (map f xs) \<Longrightarrow> sorted (map f (insertWith (\<lambda>a b. f a - f b) x xs))"
  by (induction xs) (auto simp: set_insertWith)

lemma sorted_sortWith: "sorted (map f (sortWith (\<lambda>a b. f a - f b) xs))"
  by (induction xs) (auto simp: sorted_insertWith)

lemma filter_insertWith_other:
  "f x \<noteq> p \<Longrightarrow>
   filter (\<lambda>e. f e = p) (insertWith (\<lambda>a b. f a - f b) x xs) = filter (\<lambda>e. f e = p) xs"
  by (induction xs) auto

lemma filter_insertWith_same:
  "sorted (map f xs) \<Longrightarrow>
   filter (\<lambda>e. f e = f x) (insertWith (\<lambda>a b. f a - f b) x xs)
     = x # filter (\<lambda>e. f e = f x) xs"
proof (induction xs)
  case Nil
  then show ?case by simp
next
  case (Cons y ys)
  show ?case
  proof (cases "f x \<le> f y")
    case True
    then show ?thesis by simp
  next
    case False
    with Cons show ?thesis by auto
  qed
qed

lemma filter_sortWith:
  "filter (\<lambda>e. f e = p) (sortWith (\<lambda>a b. f a - f b) xs) = filter (\<lambda>e. f e = p) xs"
proof (induction xs)
  case Nil
  then show ?case by simp
next
  case (Cons x xs)
  show ?case
  proof (cases "f x = p")
    case True
    have "filter (\<lambda>e. f e = f x) (insertWith (\<lambda>a b. f a - f b) x (sortWith (\<lambda>a b. f a - f b) xs))
            = x # filter (\<lambda>e. f e = f x) (sortWith (\<lambda>a b. f a - f b) xs)"
      by (rule filter_insertWith_same) (rule sorted_sortWith)
    with True Cons show ?thesis by simp
  next
    case False
    with Cons show ?thesis by (simp add: filter_insertWith_other)
  qed
qed

lemma comparePriority_eq:
  "comparePriority = (\<lambda>a b. (priority \<circ> snd) a - (priority \<circ> snd) b)"
  by (simp add: comparePriority_def fun_eq_iff)

lemma compareIndex_eq:
  "compareIndex = (\<lambda>a b. (numericValue \<circ> fst) a - (numericValue \<circ> fst) b)"
  by (simp add: compareIndex_def fun_eq_iff)

lemma set_objectEntries: "set (objectEntries ps) = set ps"
  by (auto simp: objectEntries_def set_sortWith)

lemma mset_objectEntries: "mset (objectEntries ps) = mset ps"
  by (simp add: objectEntries_def mset_sortWith)

lemma keys_objectEntries: "distinct (map fst (objectEntries ps)) = distinct (map fst ps)"
proof -
  have "mset (map fst (objectEntries ps)) = mset (map fst ps)"
    by (simp add: mset_objectEntries)
  then show ?thesis by (rule mset_eq_imp_distinct_iff)
qed

lemma filter_all_sortWith: "(\<forall>x \<in> set xs. P x) \<Longrightarrow> filter P (sortWith cmp xs) = sortWith cmp xs"
  by (simp add: set_sortWith)

lemma filter_none_sortWith: "(\<forall>x \<in> set xs. \<not> P x) \<Longrightarrow> filter P (sortWith cmp xs) = []"
  by (simp add: set_sortWith)

lemma index_part_objectEntries:
  "filter (\<lambda>e. isArrayIndex (fst e)) (objectEntries ps)
     = sortWith compareIndex (filter (\<lambda>e. isArrayIndex (fst e)) ps)"
  unfolding objectEntries_def filter_append
  by (simp add: filter_all_sortWith)

lemma other_part_objectEntries:
  "filter (\<lambda>e. \<not> isArrayIndex (fst e)) (objectEntries ps)
     = filter (\<lambda>e. \<not> isArrayIndex (fst e)) ps"
  unfolding objectEntries_def filter_append
  by (simp add: filter_none_sortWith)

lemma objectEntries_without_index:
  "(\<forall>e \<in> set ps. \<not> isArrayIndex (fst e)) \<Longrightarrow> objectEntries ps = ps"
  by (simp add: objectEntries_def)

text \<open>
  Claim C7, as the code has it. For every registry state, \<^verbatim>\<open>getAvailableProviders\<close>
  returns the keys of exactly the entries whose \<^verbatim>\<open>enabled\<close> and \<^verbatim>\<open>available\<close> are both
  true, each as often as it is registered, in ascending order of \<^verbatim>\<open>priority\<close>, and the
  state is left as it was. Entries of equal priority keep the order in which
  \<^verbatim>\<open>Object.entries\<close> enumerates them: the keys that are array indices first, in ascending
  numeric order, then the other keys in their registration order. So the ties are in
  registration order, and the result is the one the specification words, when no key of
  the registry is an array index.
\<close>

theorem getAvailableProviders_sorted_stable:
  "fst (getAvailableProviders s) = map fst (availableEntries s)
   \<and> set (availableEntries s) = {e \<in> set (providers s). enabled (snd e) \<and> available (snd e)}
   \<and> mset (availableEntries s) = mset (filter usable (providers s))
   \<and> sorted (map (priority \<circ> snd) (availableEntries s))
   \<and> filter (\<lambda>e. priority (snd e) = p) (availableEntries s)
       = filter (\<lambda>e. priority (snd e) = p) (filter usable (objectEntries (providers s)))
   \<and> objectEntries (providers s)
       = filter (\<lambda>e. isArrayIndex (fst e)) (objectEntries (providers s))
         @ filter (\<lambda>e. \<not> isArrayIndex (fst e)) (providers s)
   \<and> sorted (map (numericValue \<circ> fst)
        (filter (\<lambda>e. isArrayIndex (fst e)) (objectEntries (providers s))))
   \<and> mset (filter (\<lambda>e. isArrayIndex (fst e)) (objectEntries (providers s)))
       = mset (filter (\<lambda>e. isArrayIndex (fst e)) (providers s))
   \<and> ((\<forall>e \<in> set (providers s). \<not> isArrayIndex (fst e)) \<longrightarrow>
        filter (\<lambda>e. priority (snd e) = p) (availableEntries s)
          = filter (\<lambda>e. priority (snd e) = p) (filter usable (providers s))
        \<and> fst (getAvailableProviders s) = getAvailableProviders_spec s)
   \<and> snd (getAvailableProviders s) = s"
proof -
  have stable: "filter (\<lambda>e. (priority \<circ> snd) e = p) (sortWith comparePriority xs)
      = filter (\<lambda>e. (priority \<circ> snd) e = p) xs" for xs
    unfolding comparePriority_eq by (rule filter_sortWith)
  have srt: "sorted (map (priority \<circ> snd) (sortWith comparePriority xs))" for xs
    unfolding comparePriority_eq by (rule sorted_sortWith)
  have c1: "fst (getAvailableProviders s) = map fst (availableEntries s)"
    by (simp add: getAvailableProviders_def)
  have c2: "set (availableEntries s) = {e \<in> set (providers s). enabled (snd e) \<and> available (snd e)}"
    by (auto simp: availableEntries_def set_sortWith set_objectEntries usable_def)
  have "mset (filter usable (objectEntries (providers s))) = mset (filter usable (providers s))"
    by (simp add: mset_objectEntries)
  then have c3: "mset (availableEntries s) = mset (filter usable (providers s))"
    by (simp only: availableEntries_def mset_sortWith)
  have c4: "sorted (map (priority \<circ> snd) (availableEntries s))"
    unfolding availableEntries_def by (rule srt)
  have c5: "filter (\<lambda>e. priority (snd e) = p) (availableEntries s)
       = filter (\<lambda>e. priority (snd e) = p) (filter usable (objectEntries (providers s)))"
    using stable[of "filter usable (objectEntries (providers s))"]
    by (simp add: availableEntries_def)
  have c6: "objectEntries (providers s)
       = filter (\<lambda>e. isArrayIndex (fst e)) (objectEntries (providers s))
         @ filter (\<lambda>e. \<not> isArrayIndex (fst e)) (providers s)"
    unfolding index_part_objectEntries by (simp add: objectEntries_def)
  have c7: "sorted (map (numericValue \<circ> fst)
        (filter (\<lambda>e. isArrayIndex (fst e)) (objectEntries (providers s))))"
    unfolding index_part_objectEntries compareIndex_eq by (rule sorted_sortWith)
  have c8: "mset (filter (\<lambda>e. isArrayIndex (fst e)) (objectEntries (providers s)))
       = mset (filter (\<lambda>e. isArrayIndex (fst e)) (providers s))"
    by (simp add: mset_objectEntries)
  have c9: "filter (\<lambda>e. priority (snd e) = p) (availableEntries s)
          = filter (\<lambda>e. priority (snd e) = p) (filter usable (providers s))
        \<and> fst (getAvailableProviders s) = getAvailableProviders_spec s"
    if "\<forall>e \<in> set (providers s). \<not> isArrayIndex (fst e)"
    using c5 objectEntries_without_index[OF that]
    by (simp add: getAvailableProviders_def getAvailableProviders_spec_def availableEntries_def)
  have c10: "snd (getAvailableProviders s) = s"
    by (simp add: getAvailableProviders_def)
  show ?thesis
    using c1 c2 c3 c4 c5 c6 c7 c8 c9 c10 by blast
qed

lemma sampleRegistry_keys:
  "isArrayIndex ''10''" "isArrayIndex ''2''" "\<not> isArrayIndex ''groq''" "\<not> isArrayIndex ''x''"
  "\<not> isArrayIndex ''backup''" "numericValue ''10'' = 10" "numericValue ''2'' = 2"
  by (simp_all add: isArrayIndex_def isDigit_def numericValue_def)

theorem getAvailableProviders_sorted_stable_witness:
  "map (\<lambda>e. isArrayIndex (fst e))
       (providers (sampleRegistry [(''backup'', sampleProvider 2), (''groq'', sampleProvider 1),
                                   (''x'', sampleProvider 1)]))
     = [False, False, False]
   \<and> fst (getAvailableProviders
       (sampleRegistry [(''backup'', sampleProvider 2), (''groq'', sampleProvider 1),
                        (''x'', sampleProvider 1)]))
     = [''groq'', ''x'', ''backup'']
   \<and> getAvailableProviders_spec
       (sampleRegistry [(''backup'', sampleProvider 2), (''groq'', sampleProvider 1),
                        (''x'', sampleProvider 1)])
     = [''groq'', ''x'', ''backup'']"
proof -
  let ?s = "sampleRegistry [(''backup'', sampleProvider 2), (''groq'', sampleProvider 1),
                            (''x'', sampleProvider 1)]"
  have keys: "map (\<lambda>e. isArrayIndex (fst e)) (providers ?s) = [False, False, False]"
    by (simp add: sampleRegistry_def sampleRegistry_keys)
  then have none: "\<forall>e \<in> set (providers ?s). \<not> isArrayIndex (fst e)"
    by (simp add: sampleRegistry_def)
  have worded: "getAvailableProviders_spec ?s = [''groq'', ''x'', ''backup'']"
    by (simp add: sampleRegistry_def sampleProvider_def getAvailableProviders_spec_def usable_def
        comparePriority_def)
  have "fst (getAvailableProviders ?s) = getAvailableProviders_spec ?s"
    using getAvailableProviders_sorted_stable [of ?s 1] none by blast
  then show ?thesis
    using keys worded by simp
qed

text \<open>
  Claim C7, as stated, fails. Four providers of the same priority are registered under
  the keys \<^verbatim>\<open>groq\<close>, \<^verbatim>\<open>x\<close>, \<^verbatim>\<open>10\<close> and \<^verbatim>\<open>2\<close>, in that order, all enabled and available.
  \<^verbatim>\<open>getAvailableProviders\<close> returns the keys 2 and 10 first, where the registration order
  has them last.
\<close>

theorem ties_not_in_registration_order:
  "map fst (providers (sampleRegistry [(''groq'', sampleProvider 1), (''x'', sampleProvider 1),
                                       (''10'', sampleProvider 1), (''2'', sampleProvider 1)]))
     = [''groq'', ''x'', ''10'', ''2'']
   \<and> fst (getAvailableProviders
       (sampleRegistry [(''groq'', sampleProvider 1), (''x'', sampleProvider 1),
                        (''10'', sampleProvider 1), (''2'', sampleProvider 1)]))
     = [''2'', ''10'', ''groq'', ''x'']
   \<and> getAvailableProviders_spec
       (sampleRegistry [(''groq'', sampleProvider 1), (''x'', sampleProvider 1),
                        (''10'', sampleProvider 1), (''2'', sampleProvider 1)])
     = [''groq'', ''x'', ''10'', ''2'']"
  by (simp add: sampleRegistry_def sampleProvider_def sampleRegistry_keys
      getAvailableProviders_def getAvailableProviders_spec_def availableEntries_def
      objectEntries_def usable_def comparePriority_def compareIndex_def)

section \<open>Properties of the cooldown\<close>

lemma lookup_assignAvailable:
  "map_of (providers s) k = Some c \<Longrightarrow>
   map_of (providers (assignAvailable k (OwnEntry c) b s)) k' =
     (if k' = k then Some (c\<lparr>available := b\<rparr>) else map_of (providers s) k')"
  by (simp add: assignAvailable_def update_conv')

lemma lookup_restoreProvider:
  "map_of (providers (restoreProvider k s)) k' =
     (if k' = k then map_option (\<lambda>c. c\<lparr>available := True\<rparr>) (map_of (providers s) k)
      else map_of (providers s) k')"
  by (auto simp: restoreProvider_def lookupProvider_def assignAvailable_def update_conv'
      split: option.splits)

lemma keys_assignAvailable:
  "lookupProvider s k = Some object \<Longrightarrow>
   map fst (providers (assignAvailable k object b s)) = map fst (providers s)"
  by (force simp: lookupProvider_def assignAvailable_def update_keys
      split: option.splits if_splits dest!: map_of_SomeD)

lemma keys_restoreProvider: "map fst (providers (restoreProvider k s)) = map fst (providers s)"
  by (simp add: restoreProvider_def keys_assignAvailable split: option.splits)

lemma timers_restoreProvider: "timers (restoreProvider k s) = timers s"
  by (auto simp: restoreProvider_def lookupProvider_def assignAvailable_def split: option.splits)

lemma lookup_fold_restoreProvider:
  "map_of (providers (fold restoreProvider ks s)) k' =
     (if k' \<in> set ks then map_option (\<lambda>c. c\<lparr>available := True\<rparr>) (map_of (providers s) k')
      else map_of (providers s) k')"
proof (induction ks arbitrary: s)
  case Nil
  then show ?case by simp
next
  case (Cons k ks)
  show ?case
    by (cases "map_of (providers s) k'") (auto simp: Cons lookup_restoreProvider)
qed

lemma keys_fold_restoreProvider:
  "map fst (providers (fold restoreProvider ks s)) = map fst (providers s)"
  by (induction ks arbitrary: s) (auto simp: keys_restoreProvider)

lemma timers_fold_restoreProvider: "timers (fold restoreProvider ks s) = timers s"
  by (induction ks arbitrary: s) (auto simp: timers_restoreProvider)

lemma lookup_elapse:
  "map_of (providers (elapse t s)) k =
     (if \<exists>due. (due, k) \<in> set (timers s) \<and> due \<le> t
      then map_option (\<lambda>c. c\<lparr>available := True\<rparr>) (map_of (providers s) k)
      else map_of (providers s) k)"
  by (force simp: elapse_def lookup_fold_restoreProvider)

lemma keys_elapse: "map fst (providers (elapse t s)) = map fst (providers s)"
  by (simp add: elapse_def keys_fold_restoreProvider)

lemma timers_elapse: "timers (elapse t s) = filter (\<lambda>timer. \<not> fst timer \<le> t) (timers s)"
  by (simp add: elapse_def timers_fold_restoreProvider)

lemma listed_iff_usable:
  assumes "distinct (map fst (providers s))"
  shows "key \<in> set (fst (getAvailableProviders s)) \<longleftrightarrow> isUsable s key"
proof -
  have "key \<in> set (fst (getAvailableProviders s))
      \<longleftrightarrow> (\<exists>c. (key, c) \<in> set (providers s) \<and> enabled c \<and> available c)"
    by (force simp: getAvailableProviders_def availableEntries_def set_sortWith set_objectEntries
        usable_def)
  also have "\<dots> \<longleftrightarrow> (\<exists>c. map_of (providers s) key = Some c \<and> enabled c \<and> available c)"
    using assms by (auto simp: map_of_eq_Some_iff)
  also have "\<dots> \<longleftrightarrow> isUsable s key"
    by (auto simp: isUsable_def split: option.splits)
  finally show ?thesis .
qed

lemma keys_mark: "map fst (providers (markProviderUnavailable key duration s)) = map fst (providers s)"
  by (simp add: markProviderUnavailable_def setTimeout_def keys_assignAvailable split: option.splits)

lemma timers_mark:
  "map_of (providers s) key \<noteq> None \<Longrightarrow>
   timers (markProviderUnavailable key duration s)
     = timers s @ [(now s + timerDelay (case duration of None \<Rightarrow> 300000 | Some d \<Rightarrow> d), key)]"
  by (auto simp: markProviderUnavailable_def lookupProvider_def assignAvailable_def setTimeout_def
      split: option.splits)

lemma lookup_mark:
  "map_of (providers (markProviderUnavailable key duration s)) k' =
     (if k' = key then map_option (\<lambda>c. c\<lparr>available := False\<rparr>) (map_of (providers s) key)
      else map_of (providers s) k')"
  by (auto simp: markProviderUnavailable_def lookupProvider_def assignAvailable_def setTimeout_def
      update_conv' split: option.splits)

lemma usable_elapse:
  "isUsable (elapse t s) key \<longleftrightarrow>
     (case map_of (providers s) key of None \<Rightarrow> False
      | Some c \<Rightarrow> enabled c \<and> (available c \<or> (\<exists>due. (due, key) \<in> set (timers s) \<and> due \<le> t)))"
  by (auto simp: isUsable_def lookup_elapse split: option.splits)

text \<open>
  Claim C9, as the code has it. The key is not an own property of the registry, and
  nothing has been written on \<^verbatim>\<open>Object.prototype\<close>. When
  \<^verbatim>\<open>Object.prototype\<close> has no property of that name either, \<^verbatim>\<open>markProviderUnavailable\<close>
  changes nothing (no flag changes and no callback is registered), and the callback,
  run for such a key, changes nothing, where the assignment without the test of line 38
  would raise a \<^verbatim>\<open>TypeError\<close>. When the key is a name of \<^verbatim>\<open>Object.prototype\<close>, the test
  of line 32 finds the inherited object: the method writes \<^verbatim>\<open>available\<close> on that object
  and registers a callback, which later writes it again. In both cases no entry of the
  registry changes.
\<close>

theorem markProviderUnavailable_absent_key:
  assumes "map_of (providers s) key = None"
    and "map_of (inherited s) ''__proto__'' = None"
  shows "(key \<notin> set objectPrototypeNames \<longrightarrow>
            markProviderUnavailable key duration s = s
            \<and> restoreProvider key s = s
            \<and> setAvailable key True s = Inl TypeError)
       \<and> (key \<in> set objectPrototypeNames \<longrightarrow>
            markProviderUnavailable key duration s
              = s\<lparr>timers := timers s @
                     [(now s + timerDelay (case duration of None \<Rightarrow> 300000 | Some d \<Rightarrow> d), key)],
                  inherited := AList.update key False (inherited s)\<rparr>
            \<and> restoreProvider key s = s\<lparr>inherited := AList.update key True (inherited s)\<rparr>)
       \<and> providers (markProviderUnavailable key duration s) = providers s
       \<and> providers (restoreProvider key s) = providers s"
  using assms
  by (simp add: markProviderUnavailable_def restoreProvider_def setAvailable_def lookupProvider_def
      assignAvailable_def setTimeout_def)

theorem markProviderUnavailable_absent_key_witness:
  "map_of (providers (initialService True)) ''gemini'' = None
   \<and> map_of (inherited (initialService True)) ''__proto__'' = None
   \<and> ''gemini'' \<notin> set objectPrototypeNames
   \<and> markProviderUnavailable ''gemini'' (Some 60000) (initialService True) = initialService True
   \<and> restoreProvider ''gemini'' (initialService True) = initialService True
   \<and> setAvailable ''gemini'' True (initialService True) = Inl TypeError
   \<and> map_of (providers ((initialService True)\<lparr>providers := [], timers := [(60000, ''groq'')]\<rparr>))
        ''groq'' = None
   \<and> restoreProvider ''groq'' ((initialService True)\<lparr>providers := [], timers := [(60000, ''groq'')]\<rparr>)
       = (initialService True)\<lparr>providers := [], timers := [(60000, ''groq'')]\<rparr>
   \<and> ''toString'' \<in> set objectPrototypeNames
   \<and> markProviderUnavailable ''toString'' (Some 60000) (initialService True)
       = (initialService True)\<lparr>timers := [(60000, ''toString'')],
                                  inherited := [(''toString'', False)]\<rparr>
   \<and> providers (markProviderUnavailable ''toString'' (Some 60000) (initialService True))
       = providers (initialService True)"
  using markProviderUnavailable_absent_key [of "initialService True" "''gemini''" "Some 60000"]
    markProviderUnavailable_absent_key
      [of "(initialService True)\<lparr>providers := [], timers := [(60000, ''groq'')]\<rparr>" "''groq''" None]
    markProviderUnavailable_absent_key [of "initialService True" "''toString''" "Some 60000"]
  by (simp add: initialService_def objectPrototypeNames_def timerDelay_def)

text \<open>
  Claim C9, as stated, fails. \<^verbatim>\<open>constructor\<close> is not a key of the registry, and
  \<^verbatim>\<open>this.providers["constructor"]\<close> is the function \<^verbatim>\<open>Object\<close>, which is truthy: the
  call is not a no-op, it writes \<^verbatim>\<open>available\<close> on that function and registers a
  callback.
\<close>

theorem inherited_key_is_marked:
  "map_of (providers (initialService True)) ''constructor'' = None
   \<and> markProviderUnavailable ''constructor'' None (initialService True)
       = \<lparr>providers = [(''groq'', \<lparr>name = ''Groq (Llama)'', client = True, enabled = True,
                           priority = 1, available = True\<rparr>)],
          lastError = [], timers = [(300000, ''constructor'')], now = 0,
          inherited = [(''constructor'', False)]\<rparr>
   \<and> markProviderUnavailable ''constructor'' None (initialService True) \<noteq> initialService True"
  by (simp add: initialService_def markProviderUnavailable_def lookupProvider_def
      objectPrototypeNames_def assignAvailable_def setTimeout_def timerDelay_def)

text \<open>
  Claim C2, as the code has it. For a key in the registry, \<^verbatim>\<open>markProviderUnavailable\<close>
  sets \<^verbatim>\<open>available\<close> of the entry to false at once, so that the key is not listed, and
  registers exactly one callback. The callback is due after the given duration, after
  300000 ms when none is given, and after 1 ms when the duration is below 1 or above
  2147483647. Callbacks registered by earlier calls stay pending: after the call,
  \<^verbatim>\<open>available\<close> is true at time \<open>t\<close> exactly when some pending callback for the key, the
  new one or an earlier one, is due by \<open>t\<close>, and the key is listed then if the entry is
  enabled. A callback that has run is no longer pending, and a callback that runs
  after the entry has been removed changes no entry.
\<close>

theorem markProviderUnavailable_cooldown:
  assumes "distinct (map fst (providers s))"
    and "map_of (providers s) key = Some config"
  shows "map_of (providers (markProviderUnavailable key duration s)) key
         = Some (config\<lparr>available := False\<rparr>)
     \<and> key \<notin> set (fst (getAvailableProviders (markProviderUnavailable key duration s)))
     \<and> timers (markProviderUnavailable key duration s)
         = timers s @ [(now s + timerDelay (case duration of None \<Rightarrow> 300000 | Some d \<Rightarrow> d), key)]
     \<and> timerDelay (case duration of None \<Rightarrow> 300000 | Some d \<Rightarrow> d)
         = (case duration of None \<Rightarrow> 300000
            | Some d \<Rightarrow> if 1 \<le> d \<and> d \<le> 2147483647 then nat d else 1)
     \<and> map_of (providers (elapse t (markProviderUnavailable key duration s))) key
         = Some (config\<lparr>available :=
             ((\<exists>due. (due, key) \<in> set (timers s) \<and> due \<le> t)
              \<or> now s + timerDelay (case duration of None \<Rightarrow> 300000 | Some d \<Rightarrow> d) \<le> t)\<rparr>)
     \<and> (key \<in> set (fst (getAvailableProviders (elapse t (markProviderUnavailable key duration s))))
          \<longleftrightarrow> enabled config
              \<and> ((\<exists>due. (due, key) \<in> set (timers s) \<and> due \<le> t)
                 \<or> now s + timerDelay (case duration of None \<Rightarrow> 300000 | Some d \<Rightarrow> d) \<le> t))
     \<and> timers (elapse t (markProviderUnavailable key duration s))
         = filter (\<lambda>timer. \<not> fst timer \<le> t) (timers (markProviderUnavailable key duration s))
     \<and> providers (restoreProvider key (removeProvider key (markProviderUnavailable key duration s)))
         = providers (removeProvider key (markProviderUnavailable key duration s))"
proof -
  let ?s' = "markProviderUnavailable key duration s"
  let ?delay = "timerDelay (case duration of None \<Rightarrow> 300000 | Some d \<Rightarrow> d)"
  let ?due = "(\<exists>due. (due, key) \<in> set (timers s) \<and> due \<le> t) \<or> now s + ?delay \<le> t"
  have present: "map_of (providers s) key \<noteq> None" using assms(2) by simp
  have dist: "distinct (map fst (providers ?s'))" using assms(1) by (simp add: keys_mark)
  have dist': "distinct (map fst (providers (elapse t ?s')))"
    using dist by (simp add: keys_elapse)
  have c1: "map_of (providers ?s') key = Some (config\<lparr>available := False\<rparr>)"
    using assms(2) by (simp add: lookup_mark)
  have c2: "key \<notin> set (fst (getAvailableProviders ?s'))"
    using c1 by (simp add: listed_iff_usable[OF dist] isUsable_def)
  have c3: "timers ?s' = timers s @ [(now s + ?delay, key)]"
    using timers_mark[OF present] .
  have c4: "?delay = (case duration of None \<Rightarrow> 300000
            | Some d \<Rightarrow> if 1 \<le> d \<and> d \<le> 2147483647 then nat d else 1)"
    by (simp add: timerDelay_def split: option.splits)
  have due: "(\<exists>due. (due, key) \<in> set (timers ?s') \<and> due \<le> t) \<longleftrightarrow> ?due"
    unfolding c3 by auto
  have c5: "map_of (providers (elapse t ?s')) key = Some (config\<lparr>available := ?due\<rparr>)"
    unfolding lookup_elapse due c1 by simp
  have c6: "key \<in> set (fst (getAvailableProviders (elapse t ?s'))) \<longleftrightarrow> enabled config \<and> ?due"
    unfolding listed_iff_usable[OF dist'] isUsable_def c5 by simp
  have c7: "timers (elapse t ?s') = filter (\<lambda>timer. \<not> fst timer \<le> t) (timers ?s')"
    by (rule timers_elapse)
  have "map_of (providers (removeProvider key ?s')) key = None"
    by (simp add: removeProvider_def delete_conv')
  then have c8: "providers (restoreProvider key (removeProvider key ?s'))
      = providers (removeProvider key ?s')"
    by (simp add: restoreProvider_def lookupProvider_def assignAvailable_def)
  show ?thesis
    using c1 c2 c3 c4 c5 c6 c7 c8 by blast
qed

lemma providers_removeProvider_mark:
  "providers (removeProvider ''groq'' (markProviderUnavailable ''groq'' duration (initialService True)))
   = []"
  by (simp add: removeProvider_def initialService_def markProviderUnavailable_def
      lookupProvider_def assignAvailable_def setTimeout_def)

lemma sample_first_mark:
  "elapse 1000 (markProviderUnavailable ''groq'' (Some 60000) (initialService True))
   = \<lparr>providers = [(''groq'', \<lparr>name = ''Groq (Llama)'', client = True, enabled = True,
                       priority = 1, available = False\<rparr>)],
      lastError = [], timers = [(60000, ''groq'')], now = 1000, inherited = []\<rparr>"
  by (simp add: initialService_def markProviderUnavailable_def lookupProvider_def
      assignAvailable_def setTimeout_def timerDelay_def elapse_def)

theorem markProviderUnavailable_cooldown_witness:
  "distinct (map fst (providers (elapse 1000 (markProviderUnavailable ''groq'' (Some 60000) (initialService True)))))
   \<and> map_of (providers (elapse 1000 (markProviderUnavailable ''groq'' (Some 60000) (initialService True)))) ''groq''
       = Some \<lparr>name = ''Groq (Llama)'', client = True, enabled = True, priority = 1, available = False\<rparr>
   \<and> ''groq'' \<notin> set (fst (getAvailableProviders (markProviderUnavailable ''groq'' (Some 3600000)
         (elapse 1000 (markProviderUnavailable ''groq'' (Some 60000) (initialService True))))))
   \<and> timers (markProviderUnavailable ''groq'' (Some 3600000)
         (elapse 1000 (markProviderUnavailable ''groq'' (Some 60000) (initialService True))))
       = [(60000, ''groq''), (3601000, ''groq'')]
   \<and> ''groq'' \<in> set (fst (getAvailableProviders (elapse 60000 (markProviderUnavailable ''groq'' (Some 3600000)
         (elapse 1000 (markProviderUnavailable ''groq'' (Some 60000) (initialService True)))))))
   \<and> timers (markProviderUnavailable ''groq'' (Some 2147483648) (initialService True))
       = [(1, ''groq'')]
   \<and> ''groq'' \<in> set (fst (getAvailableProviders
         (elapse 30 (markProviderUnavailable ''groq'' (Some 2147483648) (initialService True)))))
   \<and> providers (restoreProvider ''groq'' (removeProvider ''groq''
         (markProviderUnavailable ''groq'' (Some 2147483648) (initialService True)))) = []"
proof -
  let ?s1 = "elapse 1000 (markProviderUnavailable ''groq'' (Some 60000) (initialService True))"
  let ?c1 = "\<lparr>name = ''Groq (Llama)'', client = True, enabled = True, priority = 1,
               available = False\<rparr>"
  let ?c0 = "\<lparr>name = ''Groq (Llama)'', client = True, enabled = True, priority = 1,
               available = True\<rparr>"
  have d1: "distinct (map fst (providers ?s1))"
    unfolding sample_first_mark by simp
  have m1: "map_of (providers ?s1) ''groq'' = Some ?c1"
    unfolding sample_first_mark by simp
  have t1: "timers ?s1 = [(60000, ''groq'')]" "now ?s1 = 1000"
    unfolding sample_first_mark by simp_all
  have d0: "distinct (map fst (providers (initialService True)))"
    by (simp add: initialService_def)
  have m0: "map_of (providers (initialService True)) ''groq'' = Some ?c0"
    by (simp add: initialService_def)
  have t0: "timers (initialService True) = []" "now (initialService True) = 0"
    by (simp_all add: initialService_def)
  note again = markProviderUnavailable_cooldown [OF d1 m1, of "Some 3600000" 60000]
  note overlong = markProviderUnavailable_cooldown [OF d0 m0, of "Some 2147483648" 30]
  have a: "''groq'' \<notin> set (fst (getAvailableProviders
      (markProviderUnavailable ''groq'' (Some 3600000) ?s1)))"
    using again by blast
  have "timers (markProviderUnavailable ''groq'' (Some 3600000) ?s1)
      = timers ?s1 @ [(now ?s1 + timerDelay (case Some 3600000 of None \<Rightarrow> 300000 | Some d \<Rightarrow> d), ''groq'')]"
    using again by blast
  then have b: "timers (markProviderUnavailable ''groq'' (Some 3600000) ?s1)
      = [(60000, ''groq''), (3601000, ''groq'')]"
    unfolding t1 by (simp add: timerDelay_def)
  have "''groq'' \<in> set (fst (getAvailableProviders
          (elapse 60000 (markProviderUnavailable ''groq'' (Some 3600000) ?s1))))
      \<longleftrightarrow> enabled ?c1
          \<and> ((\<exists>due. (due, ''groq'') \<in> set (timers ?s1) \<and> due \<le> 60000)
             \<or> now ?s1 + timerDelay (case Some 3600000 of None \<Rightarrow> 300000 | Some d \<Rightarrow> d) \<le> 60000)"
    using again by blast
  then have c: "''groq'' \<in> set (fst (getAvailableProviders
          (elapse 60000 (markProviderUnavailable ''groq'' (Some 3600000) ?s1))))"
    unfolding t1 by simp
  have "timers (markProviderUnavailable ''groq'' (Some 2147483648) (initialService True))
      = timers (initialService True)
        @ [(now (initialService True)
            + timerDelay (case Some 2147483648 of None \<Rightarrow> 300000 | Some d \<Rightarrow> d), ''groq'')]"
    using overlong by blast
  then have d: "timers (markProviderUnavailable ''groq'' (Some 2147483648) (initialService True))
      = [(1, ''groq'')]"
    unfolding t0 by (simp add: timerDelay_def)
  have "''groq'' \<in> set (fst (getAvailableProviders
          (elapse 30 (markProviderUnavailable ''groq'' (Some 2147483648) (initialService True)))))
      \<longleftrightarrow> enabled ?c0
          \<and> ((\<exists>due. (due, ''groq'') \<in> set (timers (initialService True)) \<and> due \<le> 30)
             \<or> now (initialService True)
                 + timerDelay (case Some 2147483648 of None \<Rightarrow> 300000 | Some d \<Rightarrow> d) \<le> 30)"
    using overlong by blast
  then have e: "''groq'' \<in> set (fst (getAvailableProviders
          (elapse 30 (markProviderUnavailable ''groq'' (Some 2147483648) (initialService True)))))"
    unfolding t0 by (simp add: timerDelay_def)
  have "providers (restoreProvider ''groq'' (removeProvider ''groq''
         (markProviderUnavailable ''groq'' (Some 2147483648) (initialService True))))
      = providers (removeProvider ''groq''
         (markProviderUnavailable ''groq'' (Some 2147483648) (initialService True)))"
    using overlong by blast
  then have f: "providers (restoreProvider ''groq'' (removeProvider ''groq''
         (markProviderUnavailable ''groq'' (Some 2147483648) (initialService True)))) = []"
    unfolding providers_removeProvider_mark .
  show ?thesis
    using d1 m1 a b c d e f by blast
qed

text \<open>
  Claim C2, as stated, fails. The provider is marked for 60000 ms at time 0 and, while
  unavailable, marked again for 3600000 ms at time 1000. At time 60000, long before
  1000 + 3600000, the first callback has run and the provider is listed again.
\<close>

theorem cooldown_not_last_write_wins:
  "\<not> isUsable (elapse 1000 (markProviderUnavailable ''groq'' (Some 60000) (initialService True))) ''groq''
   \<and> now (elapse 1000 (markProviderUnavailable ''groq'' (Some 60000) (initialService True))) = 1000
   \<and> (60000::nat) < 1000 + 3600000
   \<and> fst (getAvailableProviders
        (elapse 60000 (markProviderUnavailable ''groq'' (Some 3600000)
          (elapse 1000 (markProviderUnavailable ''groq'' (Some 60000) (initialService True))))))
      = [''groq'']"
  unfolding sample_first_mark
  by (simp add: getAvailableProviders_def availableEntries_def objectEntries_def usable_def
      sampleRegistry_keys markProviderUnavailable_def lookupProvider_def assignAvailable_def
      setTimeout_def timerDelay_def elapse_def restoreProvider_def isUsable_def)

section \<open>Properties of the classification\<close>

lemma str_includes_iff: "str_includes h n \<longleftrightarrow> (\<exists>u v. h = u @ n @ v)"
proof (induction h)
  case Nil
  then show ?case by auto
next
  case (Cons c cs)
  show ?case
  proof
    assume "str_includes (c # cs) n"
    then consider "prefix n (c # cs)" | "str_includes cs n" by auto
    then show "\<exists>u v. c # cs = u @ n @ v"
    proof cases
      case 1
      then obtain v where "c # cs = n @ v" by (auto simp: prefix_def)
      then have "c # cs = [] @ n @ v" by simp
      then show ?thesis by blast
    next
      case 2
      with Cons obtain u v where "cs = u @ n @ v" by auto
      then have "c # cs = (c # u) @ n @ v" by simp
      then show ?thesis by blast
    qed
  next
    assume "\<exists>u v. c # cs = u @ n @ v"
    then obtain u v where uv: "c # cs = u @ n @ v" by blast
    show "str_includes (c # cs) n"
    proof (cases u)
      case Nil
      with uv have "prefix n (c # cs)" by (simp add: prefix_def)
      then show ?thesis by simp
    next
      case (Cons a u')
      with uv have "cs = u' @ n @ v" by simp
      with Cons.IH show ?thesis by auto
    qed
  qed
qed

lemma includes_lower_iff:
  "str_includes (toLowerCase m) kw \<longleftrightarrow> (\<exists>u w v. m = u @ w @ v \<and> toLowerCase w = kw)"
proof
  assume "str_includes (toLowerCase m) kw"
  then obtain a b where "map lowerChar m = a @ kw @ b"
    by (auto simp: str_includes_iff toLowerCase_def)
  then obtain u r where m: "m = u @ r" and r: "map lowerChar r = kw @ b"
    by (metis map_eq_append_conv)
  from r obtain w v where "r = w @ v" and "map lowerChar w = kw"
    by (metis map_eq_append_conv)
  with m show "\<exists>u w v. m = u @ w @ v \<and> toLowerCase w = kw"
    by (auto simp: toLowerCase_def)
next
  assume "\<exists>u w v. m = u @ w @ v \<and> toLowerCase w = kw"
  then obtain u w v where "m = u @ w @ v" and "toLowerCase w = kw" by blast
  then have "toLowerCase m = toLowerCase u @ kw @ toLowerCase v"
    by (simp add: toLowerCase_def)
  then show "str_includes (toLowerCase m) kw"
    unfolding str_includes_iff by blast
qed

lemma toLowerCase_Nil_iff: "toLowerCase m = [] \<longleftrightarrow> m = []"
  by (simp add: toLowerCase_def)

lemma errorMessageOf_includes:
  "kw \<noteq> [] \<Longrightarrow>
   str_includes (errorMessageOf e) kw
     \<longleftrightarrow> (\<exists>m u w v. message e = Some m \<and> m = u @ w @ v \<and> toLowerCase w = kw)"
  by (cases "message e") (auto simp: errorMessageOf_def includes_lower_iff toLowerCase_Nil_iff)

lemma includes_any_of_three:
  assumes "a \<noteq> []" and "b \<noteq> []" and "c \<noteq> []"
  shows "(str_includes (errorMessageOf e) a \<or> str_includes (errorMessageOf e) b
        \<or> str_includes (errorMessageOf e) c)
     \<longleftrightarrow> (\<exists>m u w v. message e = Some m \<and> m = u @ w @ v \<and> toLowerCase w \<in> {a, b, c})"
  unfolding errorMessageOf_includes[OF assms(1)] errorMessageOf_includes[OF assms(2)]
    errorMessageOf_includes[OF assms(3)]
  by blast

lemma errorCodeOf_429_402:
  "(errorCodeOf e = Some (JNumber ''429'') \<or> errorCodeOf e = Some (JNumber ''402''))
     \<longleftrightarrow> status e \<in> {Some (JNumber ''429''), Some (JNumber ''402'')}
        \<or> (code e \<in> {Some (JNumber ''429''), Some (JNumber ''402'')} \<and> \<not> truthyOpt (status e))"
  by (auto simp: errorCodeOf_def)


text \<open>
  Claim C3, as the code has it. \<^verbatim>\<open>_isBalanceError\<close> returns true exactly when some part
  of the message is, up to the case of its letters, one of \<^verbatim>\<open>insufficient\<close>, \<^verbatim>\<open>quota\<close>,
  \<^verbatim>\<open>balance\<close>, or the status is the number 429 or 402, or the status is absent (or
  falsy) and the code is the number 429 or 402.
\<close>

theorem isBalanceError_iff:
  "isBalanceError e \<longleftrightarrow>
     (\<exists>m u w v. message e = Some m \<and> m = u @ w @ v
        \<and> toLowerCase w \<in> {''insufficient'', ''quota'', ''balance''})
     \<or> status e \<in> {Some (JNumber ''429''), Some (JNumber ''402'')}
     \<or> (code e \<in> {Some (JNumber ''429''), Some (JNumber ''402'')} \<and> \<not> truthyOpt (status e))"
proof -
  have msg: "(str_includes (errorMessageOf e) ''insufficient''
        \<or> str_includes (errorMessageOf e) ''quota''
        \<or> str_includes (errorMessageOf e) ''balance'')
     \<longleftrightarrow> (\<exists>m u w v. message e = Some m \<and> m = u @ w @ v
        \<and> toLowerCase w \<in> {''insufficient'', ''quota'', ''balance''})"
    by (rule includes_any_of_three) simp_all
  show ?thesis
    unfolding isBalanceError_def Let_def
    using msg errorCodeOf_429_402[of e] by blast
qed

text \<open>
  Claim C3, as stated, fails: a message about \<^verbatim>\<open>billing\<close> and the code
  \<^verbatim>\<open>insufficient_quota\<close> are quota failures for the specification and transient ones
  for \<^verbatim>\<open>_isBalanceError\<close>.
\<close>

theorem isBalanceError_misses_billing:
  "isBalanceError_spec (Error ''Your billing plan has expired'')
   \<and> \<not> isBalanceError (Error ''Your billing plan has expired'')
   \<and> isBalanceError_spec \<lparr>message = Some ''Request rejected'', status = None,
         code = Some (JString ''insufficient_quota'')\<rparr>
   \<and> \<not> isBalanceError \<lparr>message = Some ''Request rejected'', status = None,
         code = Some (JString ''insufficient_quota'')\<rparr>"
  by (simp add: isBalanceError_def isBalanceError_spec_def Error_def errorMessageOf_def
      errorCodeOf_def toLowerCase_def isUpperCase_def)

section \<open>Properties of the failover loops\<close>

lemma extractJSON_total: "\<exists>v. extractJSON parse text = Inr v"
  by (auto simp: extractJSON_def split: sum.splits option.splits)


lemma handleFailure_eq:
  "handleFailure p e s =
     markProviderUnavailable p (Some (if isBalanceError e then 3600000 else 60000))
       (s\<lparr>lastError := AList.update p (message e) (lastError s)\<rparr>)"
  by (simp add: handleFailure_def)



lemma getAvailable_snd: "snd (getAvailableProviders s) = s"
  by (simp add: getAvailableProviders_def)

text \<open>
  Claim C8. When the call for the first provider of the list succeeds, the method
  returns its result and leaves the whole state as it was: registry, \<^verbatim>\<open>lastError\<close> and
  pending callbacks.
\<close>

theorem first_success_leaves_state:
  assumes "fst (getAvailableProviders s) = p # rest"
  shows "(p = ''groq'' \<and> groqSummary rt fullTranscript category = Returns text \<longrightarrow>
            (\<exists>summary. extractJSON (JSON_parse rt) text = Inr summary
               \<and> generateFinalSummary rt fullTranscript category s = (Inr summary, s)))
   \<and> (analyzeLegalWithProvider rt p transcript category = Returns result \<longrightarrow>
            analyzeLegalSituation rt transcript category s = (Inr result, s))
   \<and> (tryResponse rt p userMessage context = Returns reply \<longrightarrow>
            generateResponse rt userMessage context s = (Inr reply, s))"
proof -
  have g: "getAvailableProviders s = (p # rest, s)"
    using assms getAvailable_snd[of s] by (cases "getAvailableProviders s") simp
  obtain v where v: "extractJSON (JSON_parse rt) text = Inr v"
    using extractJSON_total by blast
  show ?thesis
    by (simp add: generateFinalSummary_def analyzeLegalSituation_def generateResponse_def g v)
qed

lemma tryResponse_invalid:
  assumes "generateResponseWithProvider rt p userMessage context = Returns result"
    and "\<not> truthyOpt result \<or> \<not> typeofString result"
  shows "p = ''groq''"
    and "tryResponse rt p userMessage context = Raises (Error (''Invalid response from '' @ p))"
  using assms by (auto simp: generateResponseWithProvider_def tryResponse_def split: if_splits)

lemma invalid_groq_not_balance: "\<not> isBalanceError (Error ''Invalid response from groq'')"
  by (simp add: isBalanceError_def Error_def errorMessageOf_def errorCodeOf_def toLowerCase_def
      isUpperCase_def)

text \<open>
  Claim C10. In \<^verbatim>\<open>generateResponse\<close>, when the call for a provider returns a value that
  is falsy (the empty string among them) or not a string, the loop stores the message
  \<^verbatim>\<open>Invalid response from\<close> followed by the provider's key in \<^verbatim>\<open>lastError\<close>, marks the
  provider unavailable for 60000 ms and goes on with the remaining providers.
\<close>

theorem invalid_response_is_failure:
  assumes "generateResponseWithProvider rt p userMessage context = Returns result"
    and "\<not> truthyOpt result \<or> \<not> typeofString result"
  shows "responseLoop rt userMessage context (p # rest) s
       = responseLoop rt userMessage context rest
           (markProviderUnavailable p (Some 60000)
              (s\<lparr>lastError := AList.update p (Some (''Invalid response from '' @ p)) (lastError s)\<rparr>))"
proof -
  have p: "p = ''groq''" using tryResponse_invalid(1)[OF assms] .
  have t: "tryResponse rt p userMessage context = Raises (Error (''Invalid response from '' @ p))"
    using tryResponse_invalid(2)[OF assms] .
  have nb: "\<not> isBalanceError (Error (''Invalid response from '' @ p))"
    using invalid_groq_not_balance by (simp add: p)
  have m: "message (Error (''Invalid response from '' @ p)) = Some (''Invalid response from '' @ p)"
    by (simp add: Error_def)
  have "responseLoop rt userMessage context (p # rest) s
      = responseLoop rt userMessage context rest
          (handleFailure p (Error (''Invalid response from '' @ p)) s)"
    by (simp add: t)
  also have "handleFailure p (Error (''Invalid response from '' @ p)) s
      = markProviderUnavailable p (Some 60000)
          (s\<lparr>lastError := AList.update p (Some (''Invalid response from '' @ p)) (lastError s)\<rparr>)"
    unfolding handleFailure_eq m using nb by simp
  finally show ?thesis .
qed

section \<open>Instances of the loops\<close>

lemma rateLimited_balance: "isBalanceError rateLimited"
  by (simp add: isBalanceError_def rateLimited_def errorCodeOf_def)

lemma initial_listed:
  "getAvailableProviders (initialService True) = ([''groq''], initialService True)"
  by (simp add: getAvailableProviders_def availableEntries_def objectEntries_def initialService_def
      usable_def sampleRegistry_keys)

lemma initial_unlisted:
  "getAvailableProviders (initialService False) = ([], initialService False)"
  by (simp add: getAvailableProviders_def availableEntries_def objectEntries_def initialService_def
      usable_def sampleRegistry_keys)

lemma rateLimited_message: "message rateLimited = Some ''Rate limit reached''"
  by (simp add: rateLimited_def)

lemma initial_after_quota_failure:
  "markProviderUnavailable ''groq'' (Some 3600000)
     ((initialService True)\<lparr>lastError := AList.update ''groq'' (Some ''Rate limit reached'')
         (lastError (initialService True))\<rparr>)
   = \<lparr>providers = [(''groq'', \<lparr>name = ''Groq (Llama)'', client = True, enabled = True,
                      priority = 1, available = False\<rparr>)],
      lastError = [(''groq'', Some ''Rate limit reached'')],
      timers = [(3600000, ''groq'')], now = 0, inherited = []\<rparr>"
  by (simp add: initialService_def markProviderUnavailable_def lookupProvider_def assignAvailable_def
      setTimeout_def timerDelay_def)

lemma generateFinalSummary_listed:
  "getAvailableProviders s = (p # rest, s) \<Longrightarrow>
   generateFinalSummary rt fullTranscript category s
     = finalSummaryLoop rt fullTranscript category (p # rest) s"
  by (simp add: generateFinalSummary_def del: finalSummaryLoop.simps)

lemma analyzeLegalSituation_listed:
  "getAvailableProviders s = (p # rest, s) \<Longrightarrow>
   analyzeLegalSituation rt transcript category s
     = analyzeLoop rt transcript category (p # rest) s"
  by (simp add: analyzeLegalSituation_def del: analyzeLoop.simps)

lemma generateResponse_listed:
  "getAvailableProviders s = (p # rest, s) \<Longrightarrow>
   generateResponse rt userMessage context s
     = responseLoop rt userMessage context (p # rest) s"
  by (simp add: generateResponse_def del: responseLoop.simps)


theorem first_success_leaves_state_witness:
  \<open>fst (getAvailableProviders (initialService True)) = [''groq'']
   \<and> groqSummary (sampleRuntime (Returns ''{"situation":"x"}'') (Returns (Some (JString ''Kumusta''))))
        ''hello'' ''labor'' = Returns ''{"situation":"x"}''
   \<and> generateFinalSummary (sampleRuntime (Returns ''{"situation":"x"}'') (Returns (Some (JString ''Kumusta''))))
        ''hello'' ''labor'' (initialService True)
       = (Inr (JObject [(''situation'', JString ''x'')]), initialService True)
   \<and> analyzeLegalSituation (sampleRuntime (Returns ''{"situation":"x"}'') (Returns (Some (JString ''Kumusta''))))
        ''hello'' ''labor'' (initialService True)
       = (Inr (JObject [(''situation'', JString ''x'')]), initialService True)
   \<and> generateResponse (sampleRuntime (Returns ''{"situation":"x"}'') (Returns (Some (JString ''Kumusta''))))
        ''hello'' '''' (initialService True)
       = (Inr ''Kumusta'', initialService True)\<close>
proof -
  let ?rt = \<open>sampleRuntime (Returns ''{"situation":"x"}'') (Returns (Some (JString ''Kumusta'')))\<close>
  have l: "fst (getAvailableProviders (initialService True)) = ''groq'' # []"
    by (simp add: initial_listed)
  have x: \<open>extractJSON (JSON_parse ?rt) ''{"situation":"x"}'' = Inr (JObject [(''situation'', JString ''x'')])\<close>
    by (simp add: sampleRuntime_def extractJSON_def parseAndNormalize_def sampleParse_def
        normalizeNextAction_def)
  have a: \<open>groqSummary ?rt ''hello'' ''labor'' = Returns ''{"situation":"x"}''\<close>
    by (simp add: sampleRuntime_def)
  have \<open>groqAnalysis ?rt ''hello'' ''labor'' = Returns ''{"situation":"x"}''\<close>
    by (simp add: sampleRuntime_def)
  then have b: "analyzeLegalWithProvider ?rt ''groq'' ''hello'' ''labor''
      = Returns (JObject [(''situation'', JString ''x'')])"
    unfolding analyzeLegalWithProvider_def using x by simp
  have c: "tryResponse ?rt ''groq'' ''hello'' '''' = Returns ''Kumusta''"
    by (simp add: sampleRuntime_def tryResponse_def generateResponseWithProvider_def)
  note first = first_success_leaves_state
      [OF l, of ?rt "''hello''" "''labor''" \<open>''{"situation":"x"}''\<close> "''hello''"
         "JObject [(''situation'', JString ''x'')]" "''hello''" "''''" "''Kumusta''"]
  have r1: "generateFinalSummary ?rt ''hello'' ''labor'' (initialService True)
      = (Inr (JObject [(''situation'', JString ''x'')]), initialService True)"
    using first a x by auto
  have r2: "analyzeLegalSituation ?rt ''hello'' ''labor'' (initialService True)
      = (Inr (JObject [(''situation'', JString ''x'')]), initialService True)"
    using first b by blast
  have r3: "generateResponse ?rt ''hello'' '''' (initialService True)
      = (Inr ''Kumusta'', initialService True)"
    using first c by blast
  show ?thesis
    using l a r1 r2 r3 by simp
qed

theorem invalid_response_is_failure_witness:
  "generateResponseWithProvider (sampleRuntime (Raises rateLimited) (Returns (Some (JString ''''))))
      ''groq'' ''hello'' '''' = Returns (Some (JString ''''))
   \<and> \<not> truthyOpt (Some (JString ''''))
   \<and> generateResponse (sampleRuntime (Raises rateLimited) (Returns (Some (JString ''''))))
        ''hello'' '''' (initialService True)
       = (Inr ''Pasensya na, lahat ng AI providers ay hindi available sa ngayon.'',
          \<lparr>providers = [(''groq'', \<lparr>name = ''Groq (Llama)'', client = True, enabled = True,
                          priority = 1, available = False\<rparr>)],
           lastError = [(''groq'', Some ''Invalid response from groq'')],
           timers = [(60000, ''groq'')], now = 0, inherited = []\<rparr>)"
proof -
  let ?rt = "sampleRuntime (Raises rateLimited) (Returns (Some (JString '''')))"
  have a: "generateResponseWithProvider ?rt ''groq'' ''hello'' '''' = Returns (Some (JString ''''))"
    by (simp add: sampleRuntime_def generateResponseWithProvider_def)
  have b: "\<not> truthyOpt (Some (JString '''')) \<or> \<not> typeofString (Some (JString ''''))"
    by simp
  have "responseLoop ?rt ''hello'' '''' (''groq'' # []) (initialService True)
      = responseLoop ?rt ''hello'' '''' []
          (markProviderUnavailable ''groq'' (Some 60000)
            ((initialService True)\<lparr>lastError := AList.update ''groq''
               (Some (''Invalid response from '' @ ''groq'')) (lastError (initialService True))\<rparr>))"
    by (rule invalid_response_is_failure [OF a b])
  also have "\<dots> = (Inr ''Pasensya na, lahat ng AI providers ay hindi available sa ngayon.'',
          \<lparr>providers = [(''groq'', \<lparr>name = ''Groq (Llama)'', client = True, enabled = True,
                          priority = 1, available = False\<rparr>)],
           lastError = [(''groq'', Some ''Invalid response from groq'')],
           timers = [(60000, ''groq'')], now = 0, inherited = []\<rparr>)"
    by (simp add: initialService_def markProviderUnavailable_def lookupProvider_def assignAvailable_def
      setTimeout_def timerDelay_def)
  finally have loop: "responseLoop ?rt ''hello'' '''' [''groq''] (initialService True)
      = (Inr ''Pasensya na, lahat ng AI providers ay hindi available sa ngayon.'',
          \<lparr>providers = [(''groq'', \<lparr>name = ''Groq (Llama)'', client = True, enabled = True,
                          priority = 1, available = False\<rparr>)],
           lastError = [(''groq'', Some ''Invalid response from groq'')],
           timers = [(60000, ''groq'')], now = 0, inherited = []\<rparr>)" .
  show ?thesis
    unfolding generateResponse_listed[OF initial_listed] loop using a by simp
qed

lemma responseLoop_returns: "\<exists>reply. fst (responseLoop rt userMessage context ps s) = Inr reply"
proof (induction ps arbitrary: s)
  case Nil
  then show ?case by simp
next
  case (Cons p ps)
  then show ?case
    by (cases "tryResponse rt p userMessage context") simp_all
qed

lemma responseLoop_exhausted:
  "(\<forall>p \<in> set ps. \<exists>e. tryResponse rt p userMessage context = Raises e) \<Longrightarrow>
   fst (responseLoop rt userMessage context ps s)
     = Inr ''Pasensya na, lahat ng AI providers ay hindi available sa ngayon.''"
proof (induction ps arbitrary: s)
  case Nil
  then show ?case by simp
next
  case (Cons p ps)
  then obtain e where "tryResponse rt p userMessage context = Raises e" by auto
  with Cons show ?case by simp
qed

lemma analyzeLoop_exhausted:
  "(\<forall>p \<in> set ps. \<exists>e. analyzeLegalWithProvider rt p transcript category = Raises e) \<Longrightarrow>
   fst (analyzeLoop rt transcript category ps s) = Inl (Error ''All AI providers failed'')"
proof (induction ps arbitrary: s)
  case Nil
  then show ?case by simp
next
  case (Cons p ps)
  then obtain e where "analyzeLegalWithProvider rt p transcript category = Raises e" by auto
  with Cons show ?case by simp
qed

lemma finalSummaryLoop_exhausted:
  "groqSummary rt fullTranscript category = Raises e \<Longrightarrow>
   fst (finalSummaryLoop rt fullTranscript category ps s)
     = Inl (Error (''Failed to generate summary with all providers. Last errors: ''
         @ JSON_stringify rt (lastError (snd (finalSummaryLoop rt fullTranscript category ps s)))))"
  by (induction ps arbitrary: s) simp_all

text \<open>
  Claim C6, as the code has it. \<^verbatim>\<open>generateResponse\<close> always returns a string: one
  fallback sentence when no provider is listed at the start, another when every listed
  provider fails. \<^verbatim>\<open>generateFinalSummary\<close> and \<^verbatim>\<open>analyzeLegalSituation\<close> raise an error
  in both situations. When the providers are exhausted, the message of the error that
  \<^verbatim>\<open>generateFinalSummary\<close> raises ends with \<^verbatim>\<open>JSON.stringify\<close> of the \<^verbatim>\<open>lastError\<close> object
  as the loop left it; the error of \<^verbatim>\<open>analyzeLegalSituation\<close> has a fixed message.
\<close>

theorem exhaustion_outcomes:
  "(fst (getAvailableProviders s) = [] \<longrightarrow>
      generateResponse rt userMessage context s
        = (Inr ''Pasensya na, walang available na AI service. Please check your API keys.'', s)
      \<and> generateFinalSummary rt fullTranscript category s
        = (Inl (Error ''No AI providers available for summarization''), s)
      \<and> analyzeLegalSituation rt transcript category s
        = (Inl (Error ''No AI providers available''), s))
   \<and> (\<exists>reply. fst (generateResponse rt userMessage context s) = Inr reply)
   \<and> (fst (getAvailableProviders s) \<noteq> []
        \<and> (\<forall>p \<in> set (fst (getAvailableProviders s)).
              \<exists>e. tryResponse rt p userMessage context = Raises e) \<longrightarrow>
      fst (generateResponse rt userMessage context s)
        = Inr ''Pasensya na, lahat ng AI providers ay hindi available sa ngayon.'')
   \<and> (fst (getAvailableProviders s) \<noteq> []
        \<and> (\<exists>e. groqSummary rt fullTranscript category = Raises e) \<longrightarrow>
      fst (generateFinalSummary rt fullTranscript category s)
        = Inl (Error (''Failed to generate summary with all providers. Last errors: ''
            @ JSON_stringify rt
                (lastError (snd (generateFinalSummary rt fullTranscript category s))))))
   \<and> (fst (getAvailableProviders s) \<noteq> []
        \<and> (\<forall>p \<in> set (fst (getAvailableProviders s)).
              \<exists>e. analyzeLegalWithProvider rt p transcript category = Raises e) \<longrightarrow>
      fst (analyzeLegalSituation rt transcript category s)
        = Inl (Error ''All AI providers failed''))"
proof -
  obtain ps where g: "getAvailableProviders s = (ps, s)"
    by (simp add: getAvailableProviders_def)
  have empty: "ps = [] \<Longrightarrow>
      generateResponse rt userMessage context s
        = (Inr ''Pasensya na, walang available na AI service. Please check your API keys.'', s)
      \<and> generateFinalSummary rt fullTranscript category s
        = (Inl (Error ''No AI providers available for summarization''), s)
      \<and> analyzeLegalSituation rt transcript category s
        = (Inl (Error ''No AI providers available''), s)"
    by (simp add: generateResponse_def generateFinalSummary_def analyzeLegalSituation_def g)
  have total: "\<exists>reply. fst (generateResponse rt userMessage context s) = Inr reply"
    using responseLoop_returns[of rt userMessage "context" ps s]
    by (simp add: generateResponse_def g)
  have resp: "ps \<noteq> [] \<Longrightarrow> \<forall>p \<in> set ps. \<exists>e. tryResponse rt p userMessage context = Raises e \<Longrightarrow>
      fst (generateResponse rt userMessage context s)
        = Inr ''Pasensya na, lahat ng AI providers ay hindi available sa ngayon.''"
    using responseLoop_exhausted[of ps rt userMessage "context" s]
    by (simp add: generateResponse_def g)
  have summ: "ps \<noteq> [] \<Longrightarrow> groqSummary rt fullTranscript category = Raises e \<Longrightarrow>
      fst (generateFinalSummary rt fullTranscript category s)
        = Inl (Error (''Failed to generate summary with all providers. Last errors: ''
            @ JSON_stringify rt
                (lastError (snd (generateFinalSummary rt fullTranscript category s)))))" for e
    using finalSummaryLoop_exhausted[of rt fullTranscript category e ps s]
    by (simp add: generateFinalSummary_def g)
  have anal: "ps \<noteq> [] \<Longrightarrow>
      \<forall>p \<in> set ps. \<exists>e. analyzeLegalWithProvider rt p transcript category = Raises e \<Longrightarrow>
      fst (analyzeLegalSituation rt transcript category s) = Inl (Error ''All AI providers failed'')"
    using analyzeLoop_exhausted[of ps rt transcript category s]
    by (simp add: analyzeLegalSituation_def g)
  show ?thesis
    using empty total resp summ anal unfolding g fst_conv by blast
qed

lemma handleFailure_initial_quota:
  "handleFailure ''groq'' rateLimited (initialService True)
   = \<lparr>providers = [(''groq'', \<lparr>name = ''Groq (Llama)'', client = True, enabled = True,
                      priority = 1, available = False\<rparr>)],
      lastError = [(''groq'', Some ''Rate limit reached'')],
      timers = [(3600000, ''groq'')], now = 0, inherited = []\<rparr>"
  unfolding handleFailure_eq
  by (simp only: rateLimited_balance rateLimited_message if_True initial_after_quota_failure)

lemma handleFailure_initial_timeout:
  "handleFailure ''groq'' (Error ''Request timed out'') (initialService True)
   = \<lparr>providers = [(''groq'', \<lparr>name = ''Groq (Llama)'', client = True, enabled = True,
                      priority = 1, available = False\<rparr>)],
      lastError = [(''groq'', Some ''Request timed out'')],
      timers = [(60000, ''groq'')], now = 0, inherited = []\<rparr>"
proof -
  have nb: "\<not> isBalanceError (Error ''Request timed out'')"
    by (simp add: isBalanceError_def Error_def errorMessageOf_def errorCodeOf_def toLowerCase_def
        isUpperCase_def)
  have m: "message (Error ''Request timed out'') = Some ''Request timed out''"
    by (simp add: Error_def)
  show ?thesis
    unfolding handleFailure_eq m using nb
    by (simp add: initialService_def markProviderUnavailable_def lookupProvider_def assignAvailable_def
      setTimeout_def timerDelay_def)
qed

lemma sampleStringify_groq:
  \<open>sampleStringify [(''groq'', Some ''Rate limit reached'')] = ''{"groq":"Rate limit reached"}''\<close>
  by (simp add: sampleStringify_def quoted_def)

theorem exhaustion_outcomes_witness:
  \<open>fst (getAvailableProviders (initialService False)) = []
   \<and> generateResponse (sampleRuntime (Raises rateLimited) (Raises rateLimited)) ''hello'' ''''
        (initialService False)
       = (Inr ''Pasensya na, walang available na AI service. Please check your API keys.'',
          initialService False)
   \<and> generateFinalSummary (sampleRuntime (Raises rateLimited) (Raises rateLimited)) ''hello'' ''labor''
        (initialService False)
       = (Inl (Error ''No AI providers available for summarization''), initialService False)
   \<and> analyzeLegalSituation (sampleRuntime (Raises rateLimited) (Raises rateLimited)) ''hello'' ''labor''
        (initialService False)
       = (Inl (Error ''No AI providers available''), initialService False)
   \<and> fst (getAvailableProviders (initialService True)) = [''groq'']
   \<and> tryResponse (sampleRuntime (Raises rateLimited) (Raises rateLimited)) ''groq'' ''hello'' ''''
       = Raises rateLimited
   \<and> groqSummary (sampleRuntime (Raises rateLimited) (Raises rateLimited)) ''hello'' ''labor''
       = Raises rateLimited
   \<and> analyzeLegalWithProvider (sampleRuntime (Raises rateLimited) (Raises rateLimited))
        ''groq'' ''hello'' ''labor'' = Raises rateLimited
   \<and> fst (generateResponse (sampleRuntime (Raises rateLimited) (Raises rateLimited)) ''hello'' ''''
        (initialService True))
       = Inr ''Pasensya na, lahat ng AI providers ay hindi available sa ngayon.''
   \<and> fst (generateFinalSummary (sampleRuntime (Raises rateLimited) (Raises rateLimited))
        ''hello'' ''labor'' (initialService True))
       = Inl (Error (''Failed to generate summary with all providers. Last errors: ''
                      @ ''{"groq":"Rate limit reached"}''))
   \<and> fst (analyzeLegalSituation (sampleRuntime (Raises rateLimited) (Raises rateLimited))
        ''hello'' ''labor'' (initialService True))
       = Inl (Error ''All AI providers failed'')\<close>
proof -
  let ?rt = "sampleRuntime (Raises rateLimited) (Raises rateLimited)"
  have e: "fst (getAvailableProviders (initialService False)) = []"
    by (simp add: initial_unlisted)
  have l: "fst (getAvailableProviders (initialService True)) = [''groq'']"
    by (simp add: initial_listed)
  have a: "groqSummary ?rt ''hello'' ''labor'' = Raises rateLimited"
    by (simp add: sampleRuntime_def)
  have b: "analyzeLegalWithProvider ?rt ''groq'' ''hello'' ''labor'' = Raises rateLimited"
    by (simp add: sampleRuntime_def analyzeLegalWithProvider_def)
  have c: "tryResponse ?rt ''groq'' ''hello'' '''' = Raises rateLimited"
    by (simp add: sampleRuntime_def tryResponse_def generateResponseWithProvider_def)
  have st: \<open>JSON_stringify ?rt (lastError (snd (generateFinalSummary ?rt ''hello'' ''labor'' (initialService True))))
      = ''{"groq":"Rate limit reached"}''\<close>
    unfolding generateFinalSummary_listed[OF initial_listed]
    by (simp add: a handleFailure_initial_quota) (simp add: sampleRuntime_def sampleStringify_groq)
  note none = exhaustion_outcomes
      [of "initialService False" ?rt "''hello''" "''''" "''hello''" "''labor''" "''hello''"]
  note some = exhaustion_outcomes
      [of "initialService True" ?rt "''hello''" "''''" "''hello''" "''labor''" "''hello''"]
  have n1: "generateResponse ?rt ''hello'' '''' (initialService False)
       = (Inr ''Pasensya na, walang available na AI service. Please check your API keys.'',
          initialService False)"
    and n2: "generateFinalSummary ?rt ''hello'' ''labor'' (initialService False)
       = (Inl (Error ''No AI providers available for summarization''), initialService False)"
    and n3: "analyzeLegalSituation ?rt ''hello'' ''labor'' (initialService False)
       = (Inl (Error ''No AI providers available''), initialService False)"
    using none e by blast+
  have s1: "fst (generateResponse ?rt ''hello'' '''' (initialService True))
       = Inr ''Pasensya na, lahat ng AI providers ay hindi available sa ngayon.''"
    using some c unfolding l by simp
  have s2: \<open>fst (generateFinalSummary ?rt ''hello'' ''labor'' (initialService True))
       = Inl (Error (''Failed to generate summary with all providers. Last errors: ''
                      @ ''{"groq":"Rate limit reached"}''))\<close>
    using some a unfolding l st by simp
  have s3: "fst (analyzeLegalSituation ?rt ''hello'' ''labor'' (initialService True))
       = Inl (Error ''All AI providers failed'')"
    using some b unfolding l by simp
  show ?thesis
    using e l a b c n1 n2 n3 s1 s2 s3 by blast
qed

text \<open>
  Claim C6, as stated, fails for \<^verbatim>\<open>analyzeLegalSituation\<close>: after two different failures
  the \<^verbatim>\<open>lastError\<close> objects differ, and the error raised is the same.
\<close>

theorem analyzeLegalSituation_error_without_map:
  "fst (analyzeLegalSituation (sampleRuntime (Raises rateLimited) (Raises rateLimited))
          ''hello'' ''labor'' (initialService True))
     = Inl (Error ''All AI providers failed'')
   \<and> lastError (snd (analyzeLegalSituation (sampleRuntime (Raises rateLimited) (Raises rateLimited))
          ''hello'' ''labor'' (initialService True)))
     = [(''groq'', Some ''Rate limit reached'')]
   \<and> fst (analyzeLegalSituation (sampleRuntime (Raises (Error ''Request timed out'')) (Raises rateLimited))
          ''hello'' ''labor'' (initialService True))
     = Inl (Error ''All AI providers failed'')
   \<and> lastError (snd (analyzeLegalSituation (sampleRuntime (Raises (Error ''Request timed out'')) (Raises rateLimited))
          ''hello'' ''labor'' (initialService True)))
     = [(''groq'', Some ''Request timed out'')]"
proof -
  have a: "analyzeLegalWithProvider (sampleRuntime (Raises e) (Raises rateLimited))
        ''groq'' ''hello'' ''labor'' = Raises e" for e
    by (simp add: sampleRuntime_def analyzeLegalWithProvider_def)
  show ?thesis
    unfolding analyzeLegalSituation_listed[OF initial_listed]
    by (simp add: a handleFailure_initial_quota handleFailure_initial_timeout)
qed

section \<open>Properties of the normalisation of \<^verbatim>\<open>nextAction\<close>\<close>

lemma normalize_step:
  assumes "map_of kvs ''nextAction'' = Some (JObject na)"
    and "map_of na ''step'' = Some step" and "truthy step"
  shows "normalizeNextAction (JObject kvs) = Inr (JObject (AList.update ''nextAction'' step kvs))"
  using assms by (simp add: normalizeNextAction_def flattenNextAction_def)

text \<open>
  Claim C1, on the code. When the parsed object has a \<^verbatim>\<open>nextAction\<close> object whose
  \<^verbatim>\<open>step\<close> is truthy, \<^verbatim>\<open>_extractJSON\<close> replaces \<^verbatim>\<open>nextAction\<close> by \<^verbatim>\<open>step\<close> alone,
  whatever \<^verbatim>\<open>timeline\<close> is: in line 331 \<^verbatim>\<open>step\<close> stands before the template literal in
  the chain of \<^verbatim>\<open>||\<close>, so the literal with the timeline is reached only when \<^verbatim>\<open>step\<close> is
  falsy. The instance below is the first example of the claim, which asks for
  \<^verbatim>\<open>Call PAO (Timeline: within 24h)\<close>.
\<close>

theorem nextAction_step_alone:
  assumes "parse text = Some (JObject kvs)"
    and "map_of kvs ''nextAction'' = Some (JObject na)"
    and "map_of na ''step'' = Some step"
    and "truthy step"
  shows "extractJSON parse text = Inr (JObject (AList.update ''nextAction'' step kvs))"
  using assms by (simp add: extractJSON_def parseAndNormalize_def normalize_step)

theorem nextAction_step_alone_witness:
  \<open>sampleParse ''{"nextAction":{"step":"Call PAO","timeline":"within 24h"}}''
     = Some (JObject [(''nextAction'',
          JObject [(''step'', JString ''Call PAO''), (''timeline'', JString ''within 24h'')])])
   \<and> truthy (JString ''Call PAO'')
   \<and> extractJSON sampleParse ''{"nextAction":{"step":"Call PAO","timeline":"within 24h"}}''
     = Inr (JObject [(''nextAction'', JString ''Call PAO'')])\<close>
proof -
  have p: \<open>sampleParse ''{"nextAction":{"step":"Call PAO","timeline":"within 24h"}}''
     = Some (JObject [(''nextAction'',
          JObject [(''step'', JString ''Call PAO''), (''timeline'', JString ''within 24h'')])])\<close>
    by (simp add: sampleParse_def)
  have n: "map_of [(''nextAction'',
          JObject [(''step'', JString ''Call PAO''), (''timeline'', JString ''within 24h'')])]
        ''nextAction''
      = Some (JObject [(''step'', JString ''Call PAO''), (''timeline'', JString ''within 24h'')])"
    by simp
  have s: "map_of [(''step'', JString ''Call PAO''), (''timeline'', JString ''within 24h'')] ''step''
      = Some (JString ''Call PAO'')"
    by simp
  have t: "truthy (JString ''Call PAO'')" by simp
  show ?thesis
    using nextAction_step_alone
      [of sampleParse \<open>''{"nextAction":{"step":"Call PAO","timeline":"within 24h"}}''\<close>
          "[(''nextAction'',
              JObject [(''step'', JString ''Call PAO''), (''timeline'', JString ''within 24h'')])]"
          "[(''step'', JString ''Call PAO''), (''timeline'', JString ''within 24h'')]"
          "JString ''Call PAO''", OF p n s t] p t
    by simp
qed

text \<open>
  Without a truthy \<^verbatim>\<open>step\<close> the template literal is used, with \<^verbatim>\<open>undefined\<close> spelled out;
  it is never empty, so the fixed sentence at the end of the chain is never the result.
\<close>

lemma nextAction_without_step:
  "normalizeNextAction (JObject [(''nextAction'', JObject [(''timeline'', JString ''within 24h'')])])
     = Inr (JObject [(''nextAction'', JString ''undefined (Timeline: within 24h)'')])"
  by (simp add: normalizeNextAction_def flattenNextAction_def timelineText_def)

lemma nextAction_empty_object:
  "normalizeNextAction (JObject [(''nextAction'', JObject [])])
     = Inr (JObject [(''nextAction'', JString ''undefined (Timeline: undefined)'')])"
  by (simp add: normalizeNextAction_def flattenNextAction_def timelineText_def)

lemma flattenNextAction_never_literal:
  "flattenNextAction (JObject na) = Inr v \<Longrightarrow> \<not> truthyOpt (map_of na ''step'') \<Longrightarrow>
   \<exists>a b. v = JString (a @ '' (Timeline: '' @ b @ '')'')"
  by (auto simp: flattenNextAction_def timelineText_def split: sum.splits if_splits option.splits)

section \<open>Properties of the extraction\<close>

text \<open>
  What the pieces of the matcher compute: a greedy piece succeeds with its longest
  match, a lazy one with its shortest, and the search with the leftmost position.
\<close>

lemma spaces_greedy: "k (dropWhile isSpace r) = Some m \<Longrightarrow> spaces r k = Some m"
  by (induction r) auto

lemma spaces_skip:
  "(\<And>c cs. isSpace c \<Longrightarrow> k (c # cs) = None) \<Longrightarrow> spaces r k = k (dropWhile isSpace r)"
  by (induction r) (auto split: option.splits)

lemma spaces_none: "(\<And>s1 s2. r = s1 @ s2 \<Longrightarrow> k s2 = None) \<Longrightarrow> spaces r k = None"
proof (induction r)
  case Nil
  then show ?case by simp
next
  case (Cons c cs)
  have "spaces cs k = None"
  proof (rule Cons.IH)
    fix s1 s2 assume "cs = s1 @ s2"
    then have "c # cs = (c # s1) @ s2" by simp
    then show "k s2 = None" by (rule Cons.prems)
  qed
  moreover have "k (c # cs) = None" using Cons.prems[of "[]" "c # cs"] by simp
  ultimately show ?case by simp
qed

lemma anyLazy_first:
  "k (acc @ g) r = Some m \<Longrightarrow>
   (\<And>g1 g2. g = g1 @ g2 \<Longrightarrow> g2 \<noteq> [] \<Longrightarrow> k (acc @ g1) (g2 @ r) = None) \<Longrightarrow>
   anyLazy acc (g @ r) k = Some m"
proof (induction g arbitrary: acc)
  case Nil
  then show ?case by (cases r) auto
next
  case (Cons a g)
  have "k acc ((a # g) @ r) = None"
    using Cons.prems(2)[of "[]" "a # g"] by simp
  moreover have "anyLazy (acc @ [a]) (g @ r) k = Some m"
  proof (rule Cons.IH)
    show "k ((acc @ [a]) @ g) r = Some m" using Cons.prems(1) by simp
  next
    fix g1 g2 assume "g = g1 @ g2" and "g2 \<noteq> []"
    then show "k ((acc @ [a]) @ g1) (g2 @ r) = None"
      using Cons.prems(2)[of "a # g1" g2] by simp
  qed
  ultimately show ?case by simp
qed

lemma anyLazy_none:
  "(\<And>g r'. r = g @ r' \<Longrightarrow> k (acc @ g) r' = None) \<Longrightarrow> anyLazy acc r k = None"
proof (induction r arbitrary: acc)
  case Nil
  then show ?case by simp
next
  case (Cons c cs)
  have "k acc (c # cs) = None" using Cons.prems[of "[]" "c # cs"] by simp
  moreover have "anyLazy (acc @ [c]) cs k = None"
  proof (rule Cons.IH)
    fix g r' assume "cs = g @ r'"
    then show "k ((acc @ [c]) @ g) r' = None" using Cons.prems[of "c # g" r'] by simp
  qed
  ultimately show ?case by simp
qed

lemma anyGreedy_none: "(\<And>s1 s2. r = s1 @ s2 \<Longrightarrow> k s2 = None) \<Longrightarrow> anyGreedy r k = None"
proof (induction r)
  case Nil
  then show ?case by simp
next
  case (Cons c cs)
  have "anyGreedy cs k = None"
  proof (rule Cons.IH)
    fix s1 s2 assume "cs = s1 @ s2"
    then have "c # cs = (c # s1) @ s2" by simp
    then show "k s2 = None" by (rule Cons.prems)
  qed
  moreover have "k (c # cs) = None" using Cons.prems[of "[]" "c # cs"] by simp
  ultimately show ?case by simp
qed

lemma anyGreedy_last:
  "k r = Some m \<Longrightarrow>
   (\<And>s1 s2. r = s1 @ s2 \<Longrightarrow> s1 \<noteq> [] \<Longrightarrow> k s2 = None) \<Longrightarrow>
   anyGreedy (g @ r) k = Some m"
proof (induction g)
  case Nil
  show ?case
  proof (cases r)
    case Nil
    with Nil.prems show ?thesis by simp
  next
    case (Cons c cs)
    have "anyGreedy cs k = None"
    proof (rule anyGreedy_none)
      fix s1 s2 assume "cs = s1 @ s2"
      then have "r = (c # s1) @ s2" using Cons by simp
      then show "k s2 = None" using Nil.prems(2) by blast
    qed
    with Cons Nil.prems(1) show ?thesis by simp
  qed
next
  case (Cons a g)
  then show ?case by simp
qed

lemma search_first:
  "pat r = Some m \<Longrightarrow>
   (\<And>p1 p2. pre = p1 @ p2 \<Longrightarrow> p2 \<noteq> [] \<Longrightarrow> pat (p2 @ r) = None) \<Longrightarrow>
   search pat (pre @ r) = Some m"
proof (induction pre)
  case Nil
  then show ?case by (cases r) auto
next
  case (Cons a pre)
  have "pat ((a # pre) @ r) = None" using Cons.prems(2)[of "[]" "a # pre"] by simp
  moreover have "search pat (pre @ r) = Some m"
  proof (rule Cons.IH)
    show "pat r = Some m" by (rule Cons.prems(1))
  next
    fix p1 p2 assume "pre = p1 @ p2" and "p2 \<noteq> []"
    then show "pat (p2 @ r) = None" using Cons.prems(2)[of "a # p1" p2] by simp
  qed
  ultimately show ?case by simp
qed

lemma search_none: "(\<And>p1 p2. text = p1 @ p2 \<Longrightarrow> pat p2 = None) \<Longrightarrow> search pat text = None"
proof (induction "text")
  case Nil
  then show ?case by simp
next
  case (Cons c cs)
  have "pat (c # cs) = None" using Cons.prems[of "[]" "c # cs"] by simp
  moreover have "search pat cs = None"
  proof (rule Cons.IH)
    fix p1 p2 assume "cs = p1 @ p2"
    then have "c # cs = (c # p1) @ p2" by simp
    then show "pat p2 = None" by (rule Cons.prems)
  qed
  ultimately show ?case by simp
qed

lemma consumed_append: "consumed (a @ rest) rest = a"
  by (simp add: consumed_def)

lemma search_brace_some:
  assumes "CHR ''{'' \<notin> set pre" and "CHR ''}'' \<notin> set post"
  shows "search bracePattern (pre @ ''{'' @ mid @ ''}'' @ post)
       = Some \<lparr>whole = ''{'' @ mid @ ''}'', group1 = None\<rparr>"
proof -
  let ?r = "''{'' @ mid @ ''}'' @ post"
  let ?k = "\<lambda>r2. lit ''}'' r2 (\<lambda>rest. Some \<lparr>whole = consumed ?r rest, group1 = None\<rparr>)"
  have c: "consumed ?r post = ''{'' @ mid @ ''}''"
    using consumed_append[of "''{'' @ mid @ ''}''" post] by simp
  have last: "?k (''}'' @ post) = Some \<lparr>whole = ''{'' @ mid @ ''}'', group1 = None\<rparr>"
    using c by (simp add: lit_def)
  have later: "?k s2 = None" if "''}'' @ post = s1 @ s2" and "s1 \<noteq> []" for s1 s2
  proof -
    from that obtain s1' where "post = s1' @ s2" by (cases s1) auto
    with assms(2) have "CHR ''}'' \<notin> set s2" by simp
    then show ?thesis by (cases s2) (auto simp: lit_def)
  qed
  have "anyGreedy (mid @ (''}'' @ post)) ?k = Some \<lparr>whole = ''{'' @ mid @ ''}'', group1 = None\<rparr>"
    using last later by (rule anyGreedy_last)
  then have here: "bracePattern ?r = Some \<lparr>whole = ''{'' @ mid @ ''}'', group1 = None\<rparr>"
    by (simp add: bracePattern_def lit_def)
  have before: "bracePattern (p2 @ ?r) = None" if "pre = p1 @ p2" and "p2 \<noteq> []" for p1 p2
  proof -
    from that assms(1) have "hd p2 \<noteq> CHR ''{''" by (cases p2) auto
    with that(2) show ?thesis by (cases p2) (auto simp: bracePattern_def lit_def)
  qed
  show ?thesis using here before by (rule search_first)
qed

lemma search_brace_none:
  assumes "\<not> (\<exists>pre mid post. t = pre @ ''{'' @ mid @ ''}'' @ post)"
  shows "search bracePattern t = None"
proof (rule search_none)
  fix p1 p2 assume t: "t = p1 @ p2"
  show "bracePattern p2 = None"
  proof (cases "prefix ''{'' p2")
    case False
    then show ?thesis by (simp add: bracePattern_def lit_def)
  next
    case True
    then obtain r1 where p2: "p2 = ''{'' @ r1" by (auto simp: prefix_def)
    let ?k = "\<lambda>r2. lit ''}'' r2 (\<lambda>rest. Some \<lparr>whole = consumed p2 rest, group1 = None\<rparr>)"
    have "anyGreedy r1 ?k = None"
    proof (rule anyGreedy_none)
      fix s1 s2 assume r1: "r1 = s1 @ s2"
      show "?k s2 = None"
      proof (cases "prefix ''}'' s2")
        case False
        then show ?thesis by (simp add: lit_def)
      next
        case True
        then obtain post where "s2 = ''}'' @ post" by (auto simp: prefix_def)
        with t p2 r1 have "t = p1 @ ''{'' @ s1 @ ''}'' @ post" by simp
        with assms show ?thesis by blast
      qed
    qed
    then show ?thesis by (simp add: bracePattern_def lit_def p2)
  qed
qed

lemma prefix_of_long_part:
  assumes "prefix p (a @ b)" and "length p \<le> length a"
  shows "prefix p a"
proof -
  from assms(1) have "p = take (length p) (a @ b)"
    by (metis append_eq_conv_conj prefixE)
  with assms(2) have "p = take (length p) a" by simp
  then show ?thesis by (metis take_is_prefix)
qed

lemma backtick_not_space: "\<not> isSpace (CHR 0x60)"
  by (simp add: isSpace_def)

lemma fence_fails_on_space: "isSpace c \<Longrightarrow> lit ''```'' (c # cs) k = None"
  using backtick_not_space by (auto simp: lit_def)

lemma dropWhile_spaces_fence:
  "\<forall>c \<in> set ws. isSpace c \<Longrightarrow> dropWhile isSpace (ws @ ''```'' @ post) = ''```'' @ post"
  using backtick_not_space by (simp add: dropWhile_append2)

lemma closing_fence:
  assumes "\<forall>c \<in> set ws. isSpace c"
  shows "spaces (ws @ ''```'' @ post) (\<lambda>r4. lit ''```'' r4 k) = k post"
proof -
  have "spaces (ws @ ''```'' @ post) (\<lambda>r4. lit ''```'' r4 k)
      = lit ''```'' (dropWhile isSpace (ws @ ''```'' @ post)) k"
    by (rule spaces_skip) (rule fence_fails_on_space)
  also have "\<dots> = k post"
    unfolding dropWhile_spaces_fence[OF assms] by (simp add: lit_def)
  finally show ?thesis .
qed

lemma no_closing_fence:
  assumes "\<not> prefix ''```'' (dropWhile isSpace r)"
  shows "spaces r (\<lambda>r4. lit ''```'' r4 k) = None"
proof -
  have "spaces r (\<lambda>r4. lit ''```'' r4 k) = lit ''```'' (dropWhile isSpace r) k"
    by (rule spaces_skip) (rule fence_fails_on_space)
  with assms show ?thesis by (simp add: lit_def)
qed

lemma fence_here:
  assumes ws1: "\<forall>c \<in> set ws1. isSpace c"
    and ws2: "\<forall>c \<in> set ws2. isSpace c"
    and ends: "body \<noteq> [] \<longrightarrow> \<not> isSpace (hd body) \<and> \<not> isSpace (last body)"
    and first: "\<not> str_includes (body @ ws2 @ ''``'') ''```''"
  shows "fencePattern (''```json'' @ ws1 @ body @ ws2 @ ''```'' @ post)
       = Some \<lparr>whole = ''```json'' @ ws1 @ body @ ws2 @ ''```'', group1 = Some body\<rparr>"
proof -
  let ?r = "''```json'' @ ws1 @ body @ ws2 @ ''```'' @ post"
  let ?k3 = "\<lambda>captured r3. spaces r3 (\<lambda>r4. lit ''```'' r4
               (\<lambda>rest. Some \<lparr>whole = consumed ?r rest, group1 = Some captured\<rparr>))"
  let ?k2 = "\<lambda>r2. anyLazy [] r2 ?k3"
  let ?m = "\<lparr>whole = ''```json'' @ ws1 @ body @ ws2 @ ''```'', group1 = Some body\<rparr>"
  have c: "consumed ?r post = ''```json'' @ ws1 @ body @ ws2 @ ''```''"
    using consumed_append[of "''```json'' @ ws1 @ body @ ws2 @ ''```''" post] by simp
  have closed: "?k3 body (ws2 @ ''```'' @ post) = Some ?m"
    unfolding closing_fence[OF ws2] c ..
  have earlier: "?k3 ([] @ g1) (g2 @ ws2 @ ''```'' @ post) = None"
    if "body = g1 @ g2" and "g2 \<noteq> []" for g1 g2
  proof (rule no_closing_fence)
    from that ends have "\<not> isSpace (last g2)" by auto
    with that(2) have "last g2 \<in> set g2" and "\<not> isSpace (last g2)" by auto
    then have dw: "dropWhile isSpace (g2 @ ws2 @ ''```'' @ post)
        = dropWhile isSpace g2 @ ws2 @ ''```'' @ post"
      by (rule dropWhile_append1)
    have ne: "dropWhile isSpace g2 \<noteq> []"
      using \<open>last g2 \<in> set g2\<close> \<open>\<not> isSpace (last g2)\<close> by (auto simp: dropWhile_eq_Nil_conv)
    show "\<not> prefix ''```'' (dropWhile isSpace (g2 @ ws2 @ ''```'' @ post))"
    proof
      assume "prefix ''```'' (dropWhile isSpace (g2 @ ws2 @ ''```'' @ post))"
      then have "prefix ''```'' ((dropWhile isSpace g2 @ ws2 @ ''``'') @ (''`'' @ post))"
        unfolding dw by simp
      moreover have "length ''```'' \<le> length (dropWhile isSpace g2 @ ws2 @ ''``'')"
        using ne by (cases "dropWhile isSpace g2") auto
      ultimately have "prefix ''```'' (dropWhile isSpace g2 @ ws2 @ ''``'')"
        by (rule prefix_of_long_part)
      then obtain v where v: "dropWhile isSpace g2 @ ws2 @ ''``'' = ''```'' @ v"
        by (auto simp: prefix_def)
      have "g2 = takeWhile isSpace g2 @ dropWhile isSpace g2" by simp
      with that(1) have "body @ ws2 @ ''``''
          = (g1 @ takeWhile isSpace g2) @ (dropWhile isSpace g2 @ ws2 @ ''``'')"
        by (metis append.assoc)
      then have "body @ ws2 @ ''``'' = (g1 @ takeWhile isSpace g2) @ ''```'' @ v"
        unfolding v .
      then have "str_includes (body @ ws2 @ ''``'') ''```''"
        unfolding str_includes_iff by blast
      with first show False by contradiction
    qed
  qed
  have lazy: "anyLazy [] (body @ ws2 @ ''```'' @ post) ?k3 = Some ?m"
    using closed earlier by (intro anyLazy_first) simp_all
  have k2: "?k2 (dropWhile isSpace (ws1 @ body @ ws2 @ ''```'' @ post)) = Some ?m"
  proof (cases "body = []")
    case True
    have "?k3 [] (''```'' @ post) = Some ?m"
      using closing_fence[of "[]" post
          "\<lambda>rest. Some \<lparr>whole = consumed ?r rest, group1 = Some []\<rparr>"] c True
      by simp
    then have "anyLazy [] (''```'' @ post) ?k3 = Some ?m" by simp
    moreover have "dropWhile isSpace (ws1 @ body @ ws2 @ ''```'' @ post) = ''```'' @ post"
    proof -
      have "\<forall>c \<in> set (ws1 @ ws2). isSpace c" using ws1 ws2 by auto
      then have "dropWhile isSpace ((ws1 @ ws2) @ ''```'' @ post) = ''```'' @ post"
        by (rule dropWhile_spaces_fence)
      with True show ?thesis by simp
    qed
    ultimately show ?thesis by simp
  next
    case False
    with ends have "\<not> isSpace (hd body)" by simp
    with False have "dropWhile isSpace (body @ ws2 @ ''```'' @ post) = body @ ws2 @ ''```'' @ post"
      by (cases body) auto
    then have "dropWhile isSpace (ws1 @ body @ ws2 @ ''```'' @ post) = body @ ws2 @ ''```'' @ post"
      using ws1 by (simp add: dropWhile_append2)
    with lazy show ?thesis by simp
  qed
  have "spaces (ws1 @ body @ ws2 @ ''```'' @ post) ?k2 = Some ?m"
    using k2 by (rule spaces_greedy)
  then show ?thesis
    by (simp add: fencePattern_def lit_def)
qed

lemma search_fence_some:
  assumes "\<not> str_includes (pre @ ''```jso'') ''```json''"
    and "\<forall>c \<in> set ws1. isSpace c"
    and "\<forall>c \<in> set ws2. isSpace c"
    and "body \<noteq> [] \<longrightarrow> \<not> isSpace (hd body) \<and> \<not> isSpace (last body)"
    and "\<not> str_includes (body @ ws2 @ ''``'') ''```''"
  shows "search fencePattern (pre @ ''```json'' @ ws1 @ body @ ws2 @ ''```'' @ post)
       = Some \<lparr>whole = ''```json'' @ ws1 @ body @ ws2 @ ''```'', group1 = Some body\<rparr>"
proof (rule search_first)
  show "fencePattern (''```json'' @ ws1 @ body @ ws2 @ ''```'' @ post)
      = Some \<lparr>whole = ''```json'' @ ws1 @ body @ ws2 @ ''```'', group1 = Some body\<rparr>"
    using assms(2-5) by (rule fence_here)
next
  fix p1 p2 assume pre: "pre = p1 @ p2" and ne: "p2 \<noteq> []"
  let ?rest = "ws1 @ body @ ws2 @ ''```'' @ post"
  have "\<not> prefix ''```json'' (p2 @ ''```json'' @ ?rest)"
  proof
    assume "prefix ''```json'' (p2 @ ''```json'' @ ?rest)"
    then have "prefix ''```json'' ((p2 @ ''```jso'') @ (''n'' @ ?rest))" by simp
    moreover have "length ''```json'' \<le> length (p2 @ ''```jso'')"
      using ne by (cases p2) auto
    ultimately have "prefix ''```json'' (p2 @ ''```jso'')" by (rule prefix_of_long_part)
    then obtain v where "p2 @ ''```jso'' = ''```json'' @ v" by (auto simp: prefix_def)
    with pre have "pre @ ''```jso'' = p1 @ ''```json'' @ v" by simp
    then have "str_includes (pre @ ''```jso'') ''```json''"
      unfolding str_includes_iff by blast
    with assms(1) show False by contradiction
  qed
  then show "fencePattern (p2 @ ''```json'' @ ?rest) = None"
    by (simp add: fencePattern_def lit_def)
qed

lemma search_fence_none:
  assumes "\<not> (\<exists>pre rest. t = pre @ ''```json'' @ rest \<and> str_includes rest ''```'')"
  shows "search fencePattern t = None"
proof (rule search_none)
  fix p1 p2 assume t: "t = p1 @ p2"
  show "fencePattern p2 = None"
  proof (cases "prefix ''```json'' p2")
    case False
    then show ?thesis by (simp add: fencePattern_def lit_def)
  next
    case True
    then obtain r1 where p2: "p2 = ''```json'' @ r1" by (auto simp: prefix_def)
    with t assms have nf: "\<not> str_includes r1 ''```''" by blast
    let ?k3 = "\<lambda>captured r3. spaces r3 (\<lambda>r4. lit ''```'' r4
               (\<lambda>rest. Some \<lparr>whole = consumed p2 rest, group1 = Some captured\<rparr>))"
    have "spaces r1 (\<lambda>r2. anyLazy [] r2 ?k3) = None"
    proof (rule spaces_none)
      fix s1 s2 assume r1: "r1 = s1 @ s2"
      show "anyLazy [] s2 ?k3 = None"
      proof (rule anyLazy_none)
        fix g r' assume s2: "s2 = g @ r'"
        show "?k3 ([] @ g) r' = None"
        proof (rule no_closing_fence)
          show "\<not> prefix ''```'' (dropWhile isSpace r')"
          proof
            assume "prefix ''```'' (dropWhile isSpace r')"
            then obtain v where "dropWhile isSpace r' = ''```'' @ v" by (auto simp: prefix_def)
            moreover have "r' = takeWhile isSpace r' @ dropWhile isSpace r'" by simp
            ultimately have "r' = takeWhile isSpace r' @ ''```'' @ v" by simp
            with r1 s2 have "r1 = (s1 @ g @ takeWhile isSpace r') @ ''```'' @ v" by simp
            then have "str_includes r1 ''```''" unfolding str_includes_iff by blast
            with nf show False by contradiction
          qed
        qed
      qed
    qed
    then show ?thesis by (simp add: fencePattern_def lit_def p2)
  qed
qed

lemma trailingFence_needs_fence: "\<not> prefix ''```'' r \<Longrightarrow> trailingFence r = None"
  by (simp add: trailingFence_def lit_def)

lemma copyToTrailingFence_id:
  "\<not> str_includes s ''```'' \<Longrightarrow> copyToTrailingFence s = s"
proof (induction s)
  case Nil
  then show ?case by simp
next
  case (Cons c cs)
  then have "\<not> prefix ''```'' (c # cs)" and "\<not> str_includes cs ''```''" by auto
  then have "trailingFence (c # cs) = None" and "copyToTrailingFence cs = cs"
    using Cons.IH by (simp_all add: trailingFence_needs_fence)
  then show ?case by simp
qed

lemma trim_id: "s \<noteq> [] \<Longrightarrow> \<not> isSpace (hd s) \<Longrightarrow> \<not> isSpace (last s) \<Longrightarrow> trim s = s"
proof -
  assume s: "s \<noteq> []" and h: "\<not> isSpace (hd s)" and l: "\<not> isSpace (last s)"
  from s h have "dropWhile isSpace s = s" by (cases s) auto
  moreover from s l have "dropWhile isSpace (rev s) = rev s"
    by (cases "rev s") (auto simp: hd_rev)
  ultimately show ?thesis by (simp add: trim_def)
qed

lemma clean_body:
  assumes "body \<noteq> []" and "\<not> isSpace (hd body)" and "\<not> isSpace (last body)"
    and "\<not> str_includes body ''```''"
  shows "trim (replaceFences body) = body"
proof -
  have "\<not> prefix ''```json'' body"
  proof
    assume "prefix ''```json'' body"
    then obtain v where "body = ''```json'' @ v" by (auto simp: prefix_def)
    then have "body = [] @ ''```'' @ (''json'' @ v)" by simp
    then have "str_includes body ''```''" unfolding str_includes_iff by blast
    with assms(4) show False by contradiction
  qed
  then have "leadingFence body = None" by (simp add: leadingFence_def lit_def)
  then have "replaceFences body = body"
    using copyToTrailingFence_id[OF assms(4)] by (simp add: replaceFences_def)
  with trim_id[OF assms(1-3)] show ?thesis by simp
qed

lemma trailingFence_Some:
  assumes "trailingFence r = Some rest"
  shows "\<exists>ws. r = ''```'' @ ws \<and> (\<forall>c \<in> set ws. isSpace c)"
proof -
  from assms obtain r1 where r: "r = ''```'' @ r1"
    by (auto simp: trailingFence_def lit_def prefix_def split: if_splits)
  have "spaces r1 (\<lambda>rest. if rest = [] then Some rest else None)
      = (if dropWhile isSpace r1 = [] then Some (dropWhile isSpace r1) else None)"
    by (rule spaces_skip) simp
  with assms r have "dropWhile isSpace r1 = []"
    by (auto simp: trailingFence_def lit_def split: if_splits)
  then have "\<forall>c \<in> set r1. isSpace c" by (simp add: dropWhile_eq_Nil_conv)
  with r show ?thesis by blast
qed

lemma brace_not_space: "\<not> isSpace (CHR ''}'')" "\<not> isSpace (CHR ''{'')"
  by (simp_all add: isSpace_def)

lemma trailingFence_brace: "r \<noteq> [] \<Longrightarrow> last r = CHR ''}'' \<Longrightarrow> trailingFence r = None"
proof (rule ccontr)
  assume r: "r \<noteq> []" "last r = CHR ''}''" and "trailingFence r \<noteq> None"
  then obtain rest where "trailingFence r = Some rest" by auto
  then obtain ws where ws: "r = ''```'' @ ws" "\<forall>c \<in> set ws. isSpace c"
    using trailingFence_Some by blast
  show False
  proof (cases "ws = []")
    case True
    with ws r show False by simp
  next
    case False
    with ws r have "last ws = CHR ''}''" by simp
    moreover from False have "last ws \<in> set ws" by simp
    ultimately show False using ws(2) brace_not_space(1) by auto
  qed
qed

lemma copyToTrailingFence_brace:
  "s \<noteq> [] \<Longrightarrow> last s = CHR ''}'' \<Longrightarrow> copyToTrailingFence s = s"
proof (induction s)
  case Nil
  then show ?case by simp
next
  case (Cons c cs)
  have none: "trailingFence (c # cs) = None"
    using Cons.prems by (rule trailingFence_brace)
  show ?case
  proof (cases "cs = []")
    case True
    with none show ?thesis by simp
  next
    case False
    with Cons.prems have "last cs = CHR ''}''" by simp
    with False Cons.IH have "copyToTrailingFence cs = cs" by simp
    with none show ?thesis by simp
  qed
qed

lemma clean_brace: "trim (replaceFences (''{'' @ mid @ ''}'')) = ''{'' @ mid @ ''}''"
proof -
  have "leadingFence (''{'' @ mid @ ''}'') = None"
    by (simp add: leadingFence_def lit_def)
  moreover have "copyToTrailingFence (''{'' @ mid @ ''}'') = ''{'' @ mid @ ''}''"
    by (rule copyToTrailingFence_brace) simp_all
  ultimately have "replaceFences (''{'' @ mid @ ''}'') = ''{'' @ mid @ ''}''"
    by (simp add: replaceFences_def)
  moreover have "trim (''{'' @ mid @ ''}'') = ''{'' @ mid @ ''}''"
    by (rule trim_id) (simp_all add: brace_not_space)
  ultimately show ?thesis by simp
qed

lemma clean_empty_fence:
  assumes "\<forall>c \<in> set ws. isSpace c"
  shows "trim (replaceFences (''```json'' @ ws @ ''```'')) = []"
proof -
  have "dropWhile isSpace (ws @ ''```'' @ []) = ''```'' @ []"
    using assms by (rule dropWhile_spaces_fence)
  then have "spaces (ws @ ''```'') (\<lambda>rest. Some rest) = Some ''```''"
    by (intro spaces_greedy) simp
  then have "leadingFence (''```json'' @ ws @ ''```'') = Some ''```''"
    by (simp add: leadingFence_def lit_def)
  moreover have "copyToTrailingFence ''```'' = []"
    by (simp add: trailingFence_def lit_def)
  ultimately show ?thesis by (simp add: replaceFences_def trim_def)
qed

lemma candidate_fence:
  assumes "\<not> str_includes (pre @ ''```jso'') ''```json''"
    and "\<forall>c \<in> set ws1. isSpace c"
    and "\<forall>c \<in> set ws2. isSpace c"
    and "body \<noteq> [] \<longrightarrow> \<not> isSpace (hd body) \<and> \<not> isSpace (last body)"
    and "\<not> str_includes (body @ ws2 @ ''``'') ''```''"
  shows "candidateText (pre @ ''```json'' @ ws1 @ body @ ws2 @ ''```'' @ post) = Some body"
proof -
  have m: "jsonMatch (pre @ ''```json'' @ ws1 @ body @ ws2 @ ''```'' @ post)
      = Some \<lparr>whole = ''```json'' @ ws1 @ body @ ws2 @ ''```'', group1 = Some body\<rparr>"
    using search_fence_some[OF assms] by (simp add: jsonMatch_def)
  show ?thesis
  proof (cases "body = []")
    case True
    have "\<forall>c \<in> set (ws1 @ ws2). isSpace c" using assms(2,3) by auto
    then have "trim (replaceFences (''```json'' @ (ws1 @ ws2) @ ''```'')) = []"
      by (rule clean_empty_fence)
    with True m show ?thesis by (simp add: candidateText_def contentToParse_def)
  next
    case False
    have nf: "\<not> str_includes body ''```''"
    proof
      assume "str_includes body ''```''"
      then obtain u v where "body = u @ ''```'' @ v" unfolding str_includes_iff by blast
      then have "body @ ws2 @ ''``'' = u @ ''```'' @ (v @ ws2 @ ''``'')" by simp
      then have "str_includes (body @ ws2 @ ''``'') ''```''" unfolding str_includes_iff by blast
      with assms(5) show False by contradiction
    qed
    from False assms(4) have "trim (replaceFences body) = body"
      using nf by (intro clean_body) simp_all
    with False m show ?thesis by (simp add: candidateText_def contentToParse_def)
  qed
qed

lemma candidate_brace:
  assumes "\<not> (\<exists>p r. t = p @ ''```json'' @ r \<and> str_includes r ''```'')"
    and "t = pre @ ''{'' @ mid @ ''}'' @ post"
    and "CHR ''{'' \<notin> set pre" and "CHR ''}'' \<notin> set post"
  shows "candidateText t = Some (''{'' @ mid @ ''}'')"
proof -
  have "search fencePattern t = None" using assms(1) by (rule search_fence_none)
  moreover have "search bracePattern t = Some \<lparr>whole = ''{'' @ mid @ ''}'', group1 = None\<rparr>"
    unfolding assms(2) using assms(3,4) by (rule search_brace_some)
  ultimately show ?thesis
    using clean_brace[of mid] by (simp add: candidateText_def jsonMatch_def contentToParse_def)
qed

lemma candidate_none:
  assumes "\<not> (\<exists>p r. t = p @ ''```json'' @ r \<and> str_includes r ''```'')"
    and "\<not> (\<exists>p m q. t = p @ ''{'' @ m @ ''}'' @ q)"
  shows "candidateText t = None"
  using search_fence_none[OF assms(1)] search_brace_none[OF assms(2)]
  by (simp add: candidateText_def jsonMatch_def)

lemma extractJSON_by_candidate:
  "extractJSON parse t =
     Inr (case parseAndNormalize parse t of
            Inr v \<Rightarrow> v
          | Inl e \<Rightarrow>
              (case candidateText t of
                 None \<Rightarrow> fallbackResult
               | Some c \<Rightarrow>
                   (case parseAndNormalize parse c of Inr v \<Rightarrow> v | Inl e' \<Rightarrow> fallbackResult)))"
  by (simp add: extractJSON_def candidateText_def split: sum.splits option.splits)

text \<open>
  Every text with a tagged fence and a closing fence after it, and every text with a
  brace that opens before one that closes, splits in the way the patterns match it.
\<close>

lemma str_includes_length: "str_includes h n \<Longrightarrow> length n \<le> length h"
  unfolding str_includes_iff by auto

lemma append_eq_longer:
  assumes "p @ a = q @ b" and "length p \<le> length q"
  shows "\<exists>d. q = p @ d \<and> a = d @ b"
proof -
  from assms(1) consider us where "p = q @ us" and "us @ a = b"
    | us where "p @ us = q" and "a = us @ b"
    by (auto simp: append_eq_append_conv2)
  then show ?thesis
  proof cases
    case 1
    with assms(2) have "us = []" by simp
    with 1 show ?thesis by simp
  next
    case 2
    then show ?thesis by blast
  qed
qed

lemma first_occurrence:
  assumes "str_includes h n" and "n \<noteq> []"
  shows "\<exists>pre post. h = pre @ n @ post \<and> \<not> str_includes (pre @ butlast n) n"
  using assms(1)
proof (induction h)
  case Nil
  with assms(2) show ?case by simp
next
  case (Cons c cs)
  have short: "\<not> str_includes (butlast n) n"
    using str_includes_length[of "butlast n" n] assms(2) by (cases n) auto
  show ?case
  proof (cases "prefix n (c # cs)")
    case True
    then obtain post where "c # cs = [] @ n @ post" by (auto simp: prefix_def)
    moreover from short have "\<not> str_includes ([] @ butlast n) n" by simp
    ultimately show ?thesis by blast
  next
    case False
    with Cons.prems have "str_includes cs n" by simp
    with Cons.IH obtain pre post where cs: "cs = pre @ n @ post"
      and first: "\<not> str_includes (pre @ butlast n) n" by blast
    have "\<not> prefix n (c # pre @ butlast n)"
    proof
      assume "prefix n (c # pre @ butlast n)"
      then obtain v where v: "c # pre @ butlast n = n @ v" by (auto simp: prefix_def)
      have "c # cs = (c # pre @ butlast n) @ [last n] @ post"
        using cs assms(2) by simp
      also have "\<dots> = n @ (v @ [last n] @ post)" unfolding v by simp
      finally have "prefix n (c # cs)" by (rule prefixI)
      with False show False by contradiction
    qed
    with first have "\<not> str_includes ((c # pre) @ butlast n) n" by simp
    moreover from cs have "c # cs = (c # pre) @ n @ post" by simp
    ultimately show ?thesis by blast
  qed
qed

lemma str_includes_after_spaces:
  assumes "str_includes (ws @ r) n" and "\<forall>c \<in> set ws. isSpace c"
    and "n \<noteq> []" and "\<not> isSpace (hd n)"
  shows "str_includes r n"
  using assms(1,2)
proof (induction ws)
  case Nil
  then show ?case by simp
next
  case (Cons w ws)
  have "\<not> prefix n (w # ws @ r)"
  proof
    assume "prefix n (w # ws @ r)"
    with assms(3) have "hd n = w" by (cases n) (auto simp: prefix_def)
    with Cons.prems(2) assms(4) show False by simp
  qed
  with Cons show ?case by simp
qed

lemma strip_right:
  "\<exists>body ws. x = body @ ws \<and> (\<forall>c \<in> set ws. isSpace c)
     \<and> (body \<noteq> [] \<longrightarrow> \<not> isSpace (last body))"
proof -
  let ?ws = "rev (takeWhile isSpace (rev x))"
  let ?body = "rev (dropWhile isSpace (rev x))"
  have "x = rev (takeWhile isSpace (rev x) @ dropWhile isSpace (rev x))" by simp
  also have "\<dots> = ?body @ ?ws" by (simp only: rev_append)
  finally have "x = ?body @ ?ws" .
  moreover have "\<forall>c \<in> set ?ws. isSpace c"
    by (auto dest: set_takeWhileD)
  moreover have "?body \<noteq> [] \<longrightarrow> \<not> isSpace (last ?body)"
    by (auto simp: last_rev hd_dropWhile)
  ultimately show ?thesis by blast
qed

lemma fence_decomposition:
  assumes "\<exists>p r. t = p @ ''```json'' @ r \<and> str_includes r ''```''"
  shows "\<exists>pre ws1 body ws2 post.
           t = pre @ ''```json'' @ ws1 @ body @ ws2 @ ''```'' @ post
           \<and> \<not> str_includes (pre @ ''```jso'') ''```json''
           \<and> (\<forall>c \<in> set ws1. isSpace c) \<and> (\<forall>c \<in> set ws2. isSpace c)
           \<and> (body \<noteq> [] \<longrightarrow> \<not> isSpace (hd body) \<and> \<not> isSpace (last body))
           \<and> \<not> str_includes (body @ ws2 @ ''``'') ''```''"
proof -
  from assms obtain p r where t: "t = p @ ''```json'' @ r" and r: "str_includes r ''```''"
    by blast
  then have "str_includes t ''```json''" unfolding str_includes_iff by blast
  then obtain pre r0 where t0: "t = pre @ ''```json'' @ r0"
    and first': "\<not> str_includes (pre @ butlast ''```json'') ''```json''"
    using first_occurrence[of t "''```json''"] by auto
  from first' have first: "\<not> str_includes (pre @ ''```jso'') ''```json''" by simp
  have "length pre \<le> length p"
  proof (rule ccontr)
    assume "\<not> length pre \<le> length p"
    then have len: "length p < length pre" by simp
    have "p @ (''```json'' @ r) = pre @ (''```json'' @ r0)" using t t0 by simp
    then obtain d where d: "pre = p @ d" and eq: "''```json'' @ r = d @ ''```json'' @ r0"
      using append_eq_longer[of p "''```json'' @ r" pre "''```json'' @ r0"] len by auto
    from d len have "d \<noteq> []" by auto
    have "(d @ ''```jso'') @ (''n'' @ r0) = ''```json'' @ r" using eq by simp
    then have "prefix ''```json'' ((d @ ''```jso'') @ (''n'' @ r0))" by (metis prefixI)
    moreover have "length ''```json'' \<le> length (d @ ''```jso'')"
      using \<open>d \<noteq> []\<close> by (cases d) auto
    ultimately have "prefix ''```json'' (d @ ''```jso'')" by (rule prefix_of_long_part)
    then obtain v where "d @ ''```jso'' = ''```json'' @ v" by (auto simp: prefix_def)
    with d have "pre @ ''```jso'' = p @ ''```json'' @ v" by simp
    then have "str_includes (pre @ ''```jso'') ''```json''" unfolding str_includes_iff by blast
    with first show False by contradiction
  qed
  moreover have "(pre @ ''```json'') @ r0 = (p @ ''```json'') @ r" using t t0 by simp
  ultimately obtain x where "r0 = x @ r"
    using append_eq_longer[of "pre @ ''```json''" r0 "p @ ''```json''" r] by auto
  moreover from r obtain u v where "r = u @ ''```'' @ v" unfolding str_includes_iff by blast
  ultimately have "r0 = (x @ u) @ ''```'' @ v" by simp
  then have r0: "str_includes r0 ''```''" unfolding str_includes_iff by blast
  let ?ws1 = "takeWhile isSpace r0"
  let ?r1 = "dropWhile isSpace r0"
  have ws1: "\<forall>c \<in> set ?ws1. isSpace c" by (auto dest: set_takeWhileD)
  have "str_includes (?ws1 @ ?r1) ''```''" using r0 by simp
  then have "str_includes ?r1 ''```''"
    using ws1 by (rule str_includes_after_spaces) (simp_all add: backtick_not_space)
  then obtain x' post where r1: "?r1 = x' @ ''```'' @ post"
    and firstc': "\<not> str_includes (x' @ butlast ''```'') ''```''"
    using first_occurrence[of ?r1 "''```''"] by auto
  obtain body ws2 where x: "x' = body @ ws2" and ws2: "\<forall>c \<in> set ws2. isSpace c"
    and lastb: "body \<noteq> [] \<longrightarrow> \<not> isSpace (last body)"
    using strip_right[of x'] by blast
  have hdb: "\<not> isSpace (hd body)" if "body \<noteq> []"
  proof -
    from that x r1 have "hd ?r1 = hd body" and "?r1 \<noteq> []" by (cases body; simp)+
    then show ?thesis using hd_dropWhile[of isSpace r0] by simp
  qed
  have "r0 = ?ws1 @ ?r1" by simp
  also have "\<dots> = ?ws1 @ body @ ws2 @ ''```'' @ post" unfolding r1 x by simp
  finally have "t = pre @ ''```json'' @ ?ws1 @ body @ ws2 @ ''```'' @ post"
    using t0 by simp
  moreover have "\<not> str_includes (body @ ws2 @ ''``'') ''```''" using firstc' x by simp
  ultimately show ?thesis using first ws1 ws2 lastb hdb by blast
qed

lemma brace_decomposition:
  assumes "\<exists>p m q. t = p @ ''{'' @ m @ ''}'' @ q"
  shows "\<exists>pre mid post. t = pre @ ''{'' @ mid @ ''}'' @ post
           \<and> CHR ''{'' \<notin> set pre \<and> CHR ''}'' \<notin> set post"
proof -
  from assms obtain p m q where t: "t = p @ ''{'' @ m @ ''}'' @ q" by blast
  let ?pre = "takeWhile (\<lambda>c. c \<noteq> CHR ''{'') p"
  let ?post = "rev (takeWhile (\<lambda>c. c \<noteq> CHR ''}'') (rev q))"
  have pre: "CHR ''{'' \<notin> set ?pre" by (auto dest: set_takeWhileD)
  have post: "CHR ''}'' \<notin> set ?post" by (auto dest: set_takeWhileD)
  have "\<exists>m1. p @ ''{'' = ?pre @ ''{'' @ m1"
  proof (cases "dropWhile (\<lambda>c. c \<noteq> CHR ''{'') p")
    case Nil
    then have eq: "?pre = p" by (metis append_Nil2 takeWhile_dropWhile_id)
    have "p @ ''{'' = ?pre @ ''{'' @ []" unfolding eq by simp
    then show ?thesis by blast
  next
    case (Cons a as)
    then have "a = CHR ''{''" using hd_dropWhile[of "\<lambda>c. c \<noteq> CHR ''{''" p] by auto
    with Cons have "p = ?pre @ ''{'' @ as"
      by (metis append_Cons append_Nil takeWhile_dropWhile_id)
    then have "p @ ''{'' = ?pre @ ''{'' @ (as @ ''{'')" by (metis append.assoc)
    then show ?thesis by blast
  qed
  then obtain m1 where m1: "p @ ''{'' = ?pre @ ''{'' @ m1" by blast
  have "\<exists>m2. ''}'' @ q = m2 @ ''}'' @ ?post"
  proof (cases "dropWhile (\<lambda>c. c \<noteq> CHR ''}'') (rev q)")
    case Nil
    then have "takeWhile (\<lambda>c. c \<noteq> CHR ''}'') (rev q) = rev q"
      by (metis append_Nil2 takeWhile_dropWhile_id)
    then have eq: "?post = q" by (simp only: rev_rev_ident)
    have "''}'' @ q = [] @ ''}'' @ ?post" unfolding eq by simp
    then show ?thesis by blast
  next
    case (Cons a as)
    then have a: "a = CHR ''}''" using hd_dropWhile[of "\<lambda>c. c \<noteq> CHR ''}''" "rev q"] by auto
    have "rev q = takeWhile (\<lambda>c. c \<noteq> CHR ''}'') (rev q) @ dropWhile (\<lambda>c. c \<noteq> CHR ''}'') (rev q)"
      by simp
    then have "rev q = rev ?post @ CHR ''}'' # as" using Cons a by simp
    then have "rev (rev q) = rev (rev ?post @ CHR ''}'' # as)" by (rule arg_cong)
    then have "q = rev as @ ''}'' @ ?post" by simp
    then have "''}'' @ q = (''}'' @ rev as) @ ''}'' @ ?post" by simp
    then show ?thesis by blast
  qed
  then obtain m2 where m2: "''}'' @ q = m2 @ ''}'' @ ?post" by blast
  have "t = (p @ ''{'') @ m @ (''}'' @ q)" using t by simp
  also have "\<dots> = ?pre @ ''{'' @ (m1 @ m @ m2) @ ''}'' @ ?post"
    unfolding m1 m2 by simp
  finally show ?thesis using pre post by blast
qed

text \<open>
  Claim C4, as the code has it. For every text and every behaviour of \<^verbatim>\<open>JSON.parse\<close>,
  \<^verbatim>\<open>_extractJSON\<close> returns a value and never raises. It returns the parsed and
  normalised full text when that succeeds. Otherwise it parses one candidate only. If
  the text holds a fence tagged \<^verbatim>\<open>json\<close> with a closing fence after it, the candidate is
  the interior of the first such block, without the white space around it, and the
  result is its parse, or the fixed literal when that fails; the span of braces is not
  tried then. If there is no such fence (an untagged fence is none), the candidate is the
  span from the first \<^verbatim>\<open>{\<close> to the last \<^verbatim>\<open>}\<close>. Without a candidate the result is the
  fixed literal. The last two parts of the statement say that these cases leave no text
  out.
\<close>

theorem extractJSON_one_candidate:
  "(\<exists>v. extractJSON parse t = Inr v)
   \<and> (parseAndNormalize parse t = Inr v \<longrightarrow> extractJSON parse t = Inr v)
   \<and> (parseAndNormalize parse t = Inl e
        \<and> t = pre @ ''```json'' @ ws1 @ body @ ws2 @ ''```'' @ post
        \<and> \<not> str_includes (pre @ ''```jso'') ''```json''
        \<and> (\<forall>c \<in> set ws1. isSpace c) \<and> (\<forall>c \<in> set ws2. isSpace c)
        \<and> (body \<noteq> [] \<longrightarrow> \<not> isSpace (hd body) \<and> \<not> isSpace (last body))
        \<and> \<not> str_includes (body @ ws2 @ ''``'') ''```''
      \<longrightarrow> extractJSON parse t
            = Inr (case parseAndNormalize parse body of
                     Inr v' \<Rightarrow> v' | Inl e' \<Rightarrow> fallbackResult))
   \<and> (parseAndNormalize parse t = Inl e
        \<and> \<not> (\<exists>p r. t = p @ ''```json'' @ r \<and> str_includes r ''```'')
        \<and> t = before @ ''{'' @ mid @ ''}'' @ after
        \<and> CHR ''{'' \<notin> set before \<and> CHR ''}'' \<notin> set after
      \<longrightarrow> extractJSON parse t
            = Inr (case parseAndNormalize parse (''{'' @ mid @ ''}'') of
                     Inr v' \<Rightarrow> v' | Inl e' \<Rightarrow> fallbackResult))
   \<and> (parseAndNormalize parse t = Inl e
        \<and> \<not> (\<exists>p r. t = p @ ''```json'' @ r \<and> str_includes r ''```'')
        \<and> \<not> (\<exists>p m q. t = p @ ''{'' @ m @ ''}'' @ q)
      \<longrightarrow> extractJSON parse t = Inr fallbackResult)
   \<and> ((\<exists>p r. t = p @ ''```json'' @ r \<and> str_includes r ''```'')
      \<longrightarrow> (\<exists>pre ws1 body ws2 post.
             t = pre @ ''```json'' @ ws1 @ body @ ws2 @ ''```'' @ post
             \<and> \<not> str_includes (pre @ ''```jso'') ''```json''
             \<and> (\<forall>c \<in> set ws1. isSpace c) \<and> (\<forall>c \<in> set ws2. isSpace c)
             \<and> (body \<noteq> [] \<longrightarrow> \<not> isSpace (hd body) \<and> \<not> isSpace (last body))
             \<and> \<not> str_includes (body @ ws2 @ ''``'') ''```''))
   \<and> ((\<exists>p m q. t = p @ ''{'' @ m @ ''}'' @ q)
      \<longrightarrow> (\<exists>before mid after. t = before @ ''{'' @ mid @ ''}'' @ after
             \<and> CHR ''{'' \<notin> set before \<and> CHR ''}'' \<notin> set after))"
proof -
  have total: "\<exists>v. extractJSON parse t = Inr v"
    by (simp add: extractJSON_by_candidate)
  have full: "parseAndNormalize parse t = Inr v \<Longrightarrow> extractJSON parse t = Inr v"
    by (simp add: extractJSON_by_candidate)
  have fence: "extractJSON parse t
        = Inr (case parseAndNormalize parse body of Inr v' \<Rightarrow> v' | Inl e' \<Rightarrow> fallbackResult)"
    if "parseAndNormalize parse t = Inl e"
      and "t = pre @ ''```json'' @ ws1 @ body @ ws2 @ ''```'' @ post"
      and "\<not> str_includes (pre @ ''```jso'') ''```json''"
      and "\<forall>c \<in> set ws1. isSpace c" and "\<forall>c \<in> set ws2. isSpace c"
      and "body \<noteq> [] \<longrightarrow> \<not> isSpace (hd body) \<and> \<not> isSpace (last body)"
      and "\<not> str_includes (body @ ws2 @ ''``'') ''```''"
  proof -
    have "candidateText t = Some body"
      unfolding that(2) using that(3-7) by (rule candidate_fence)
    with that(1) show ?thesis by (simp add: extractJSON_by_candidate)
  qed
  have brace: "extractJSON parse t
        = Inr (case parseAndNormalize parse (''{'' @ mid @ ''}'') of
                 Inr v' \<Rightarrow> v' | Inl e' \<Rightarrow> fallbackResult)"
    if "parseAndNormalize parse t = Inl e"
      and "\<not> (\<exists>p r. t = p @ ''```json'' @ r \<and> str_includes r ''```'')"
      and "t = before @ ''{'' @ mid @ ''}'' @ after"
      and "CHR ''{'' \<notin> set before" and "CHR ''}'' \<notin> set after"
  proof -
    have "candidateText t = Some (''{'' @ mid @ ''}'')"
      using that(2-5) by (rule candidate_brace)
    with that(1) show ?thesis by (simp add: extractJSON_by_candidate)
  qed
  have none: "extractJSON parse t = Inr fallbackResult"
    if "parseAndNormalize parse t = Inl e"
      and "\<not> (\<exists>p r. t = p @ ''```json'' @ r \<and> str_includes r ''```'')"
      and "\<not> (\<exists>p m q. t = p @ ''{'' @ m @ ''}'' @ q)"
  proof -
    have "candidateText t = None"
      using that(2,3) by (rule candidate_none)
    with that(1) show ?thesis by (simp add: extractJSON_by_candidate)
  qed
  have implications: "(parseAndNormalize parse t = Inr v \<longrightarrow> extractJSON parse t = Inr v)
   \<and> (parseAndNormalize parse t = Inl e
        \<and> t = pre @ ''```json'' @ ws1 @ body @ ws2 @ ''```'' @ post
        \<and> \<not> str_includes (pre @ ''```jso'') ''```json''
        \<and> (\<forall>c \<in> set ws1. isSpace c) \<and> (\<forall>c \<in> set ws2. isSpace c)
        \<and> (body \<noteq> [] \<longrightarrow> \<not> isSpace (hd body) \<and> \<not> isSpace (last body))
        \<and> \<not> str_includes (body @ ws2 @ ''``'') ''```''
      \<longrightarrow> extractJSON parse t
            = Inr (case parseAndNormalize parse body of
                     Inr v' \<Rightarrow> v' | Inl e' \<Rightarrow> fallbackResult))
   \<and> (parseAndNormalize parse t = Inl e
        \<and> \<not> (\<exists>p r. t = p @ ''```json'' @ r \<and> str_includes r ''```'')
        \<and> t = before @ ''{'' @ mid @ ''}'' @ after
        \<and> CHR ''{'' \<notin> set before \<and> CHR ''}'' \<notin> set after
      \<longrightarrow> extractJSON parse t
            = Inr (case parseAndNormalize parse (''{'' @ mid @ ''}'') of
                     Inr v' \<Rightarrow> v' | Inl e' \<Rightarrow> fallbackResult))
   \<and> (parseAndNormalize parse t = Inl e
        \<and> \<not> (\<exists>p r. t = p @ ''```json'' @ r \<and> str_includes r ''```'')
        \<and> \<not> (\<exists>p m q. t = p @ ''{'' @ m @ ''}'' @ q)
      \<longrightarrow> extractJSON parse t = Inr fallbackResult)"
    using full fence brace none by blast
  show ?thesis
    by (intro conjI total implications[THEN conjunct1]
        implications[THEN conjunct2, THEN conjunct1]
        implications[THEN conjunct2, THEN conjunct2, THEN conjunct1]
        implications[THEN conjunct2, THEN conjunct2, THEN conjunct2]
        impI fence_decomposition brace_decomposition)
qed

lemmas matcher_defs = jsonMatch_def fencePattern_def bracePattern_def untaggedFencePattern_def
  lit_def consumed_def isSpace_def contentToParse_def replaceFences_def leadingFence_def
  trailingFence_def trim_def candidateText_def fencedInterior_def braceSpan_def

lemma sample_candidate_1: "candidateText ''```json nope ``` {}'' = Some ''nope''"
  by (simp add: matcher_defs)

lemma sample_candidate_2: "candidateText ''``` [1] ```'' = None"
  by (simp add: matcher_defs)

lemma sample_spec_1:
  "fencedInterior ''```json nope ``` {}'' = Some ''nope''"
  "braceSpan ''```json nope ``` {}'' = Some ''{}''"
  by (simp_all add: matcher_defs)

lemma sample_spec_2:
  "fencedInterior ''``` [1] ```'' = Some ''[1]''"
  "braceSpan ''``` [1] ```'' = None"
  by (simp_all add: matcher_defs)

lemma sampleParse_values:
  "sampleParse ''```json nope ``` {}'' = None"
  "sampleParse ''nope'' = None"
  "sampleParse ''{}'' = Some (JObject [])"
  "sampleParse ''``` [1] ```'' = None"
  "sampleParse ''[1]'' = Some (JArray [JNumber ''1''])"
  by (simp_all add: sampleParse_def)

text \<open>
  Claim C4, as stated, fails. In the first text the tagged fence holds no JSON and the
  span of braces does: the specification's order gives the empty object, the code the
  fixed literal. In the second text the fence is untagged and holds an array: the code
  finds neither a tagged fence nor a brace and returns the fixed literal.
\<close>

theorem extractJSON_not_first_success:
  "extractJSON sampleParse ''```json nope ``` {}'' = Inr fallbackResult
   \<and> extractJSON_spec sampleParse ''```json nope ``` {}'' = JObject []
   \<and> extractJSON sampleParse ''``` [1] ```'' = Inr fallbackResult
   \<and> extractJSON_spec sampleParse ''``` [1] ```'' = JArray [JNumber ''1'']"
  by (simp add: extractJSON_by_candidate extractJSON_spec_def sample_candidate_1 sample_candidate_2
      sample_spec_1 sample_spec_2 parseAndNormalize_def sampleParse_values normalizeNextAction_def)

lemma no_tag_no_fence:
  assumes "\<not> str_includes t ''```json''"
  shows "\<not> (\<exists>p r. t = p @ ''```json'' @ r \<and> str_includes r ''```'')"
  using assms unfolding str_includes_iff by blast

lemma no_brace_no_span:
  assumes "CHR ''{'' \<notin> set t"
  shows "\<not> (\<exists>p m q. t = p @ ''{'' @ m @ ''}'' @ q)"
  using assms by auto

theorem extractJSON_one_candidate_witness:
  \<open>parseAndNormalize sampleParse ''Here: ```json {"situation":"x"} ``` bye'' = Inl SyntaxError
   \<and> \<not> str_includes (''Here: '' @ ''```jso'') ''```json''
   \<and> isSpace (CHR '' '')
   \<and> \<not> isSpace (hd ''{"situation":"x"}'') \<and> \<not> isSpace (last ''{"situation":"x"}'')
   \<and> \<not> str_includes (''{"situation":"x"}'' @ '' '' @ ''``'') ''```''
   \<and> extractJSON sampleParse ''Here: ```json {"situation":"x"} ``` bye''
       = Inr (JObject [(''situation'', JString ''x'')])
   \<and> parseAndNormalize sampleParse ''Result: {"situation":"x"} done'' = Inl SyntaxError
   \<and> \<not> str_includes ''Result: {"situation":"x"} done'' ''```json''
   \<and> extractJSON sampleParse ''Result: {"situation":"x"} done''
       = Inr (JObject [(''situation'', JString ''x'')])
   \<and> parseAndNormalize sampleParse ''no json here'' = Inl SyntaxError
   \<and> CHR ''{'' \<notin> set ''no json here''
   \<and> extractJSON sampleParse ''no json here'' = Inr fallbackResult
   \<and> parseAndNormalize sampleParse ''{"situation":"x"}''
       = Inr (JObject [(''situation'', JString ''x'')])
   \<and> extractJSON sampleParse ''{"situation":"x"}'' = Inr (JObject [(''situation'', JString ''x'')])\<close>
proof -
  have body: \<open>parseAndNormalize sampleParse ''{"situation":"x"}''
      = Inr (JObject [(''situation'', JString ''x'')])\<close>
    by (simp add: parseAndNormalize_def sampleParse_def normalizeNextAction_def)
  have f1: \<open>parseAndNormalize sampleParse ''Here: ```json {"situation":"x"} ``` bye'' = Inl SyntaxError\<close>
    by (simp add: parseAndNormalize_def sampleParse_def)
  have f2: "\<not> str_includes (''Here: '' @ ''```jso'') ''```json''" by simp
  have sp: "isSpace (CHR '' '')" by (simp add: isSpace_def)
  then have f3: "\<forall>c \<in> set '' ''. isSpace c" by simp
  have f4: \<open>\<not> isSpace (hd ''{"situation":"x"}'') \<and> \<not> isSpace (last ''{"situation":"x"}'')\<close>
    by (simp add: isSpace_def)
  have f5: \<open>\<not> str_includes (''{"situation":"x"}'' @ '' '' @ ''``'') ''```''\<close> by simp
  have f6: \<open>''Here: ```json {"situation":"x"} ``` bye''
      = ''Here: '' @ ''```json'' @ '' '' @ ''{"situation":"x"}'' @ '' '' @ ''```'' @ '' bye''\<close>
    by simp
  have \<open>extractJSON sampleParse ''Here: ```json {"situation":"x"} ``` bye''
      = Inr (case parseAndNormalize sampleParse ''{"situation":"x"}'' of
               Inr v' \<Rightarrow> v' | Inl e' \<Rightarrow> fallbackResult)\<close>
    by (rule extractJSON_one_candidate
          [of sampleParse \<open>''Here: ```json {"situation":"x"} ``` bye''\<close> _ SyntaxError
              "''Here: ''" "'' ''" \<open>''{"situation":"x"}''\<close> "'' ''" "'' bye''",
           THEN conjunct2, THEN conjunct2, THEN conjunct1, THEN mp])
       (intro conjI impI f1 f6 f2 f3 f4 f5)
  then have r1: \<open>extractJSON sampleParse ''Here: ```json {"situation":"x"} ``` bye''
      = Inr (JObject [(''situation'', JString ''x'')])\<close>
    unfolding body by simp
  have b1: \<open>parseAndNormalize sampleParse ''Result: {"situation":"x"} done'' = Inl SyntaxError\<close>
    by (simp add: parseAndNormalize_def sampleParse_def)
  have b2: \<open>\<not> str_includes ''Result: {"situation":"x"} done'' ''```json''\<close> by simp
  have b3: \<open>''Result: {"situation":"x"} done''
      = ''Result: '' @ ''{'' @ ''"situation":"x"'' @ ''}'' @ '' done''\<close>
    by simp
  have b4: "CHR ''{'' \<notin> set ''Result: ''" and b5: "CHR ''}'' \<notin> set '' done''" by simp_all
  have b6: \<open>''{'' @ ''"situation":"x"'' @ ''}'' = ''{"situation":"x"}''\<close> by simp
  have \<open>extractJSON sampleParse ''Result: {"situation":"x"} done''
      = Inr (case parseAndNormalize sampleParse (''{'' @ ''"situation":"x"'' @ ''}'') of
               Inr v' \<Rightarrow> v' | Inl e' \<Rightarrow> fallbackResult)\<close>
    by (rule extractJSON_one_candidate
          [of sampleParse \<open>''Result: {"situation":"x"} done''\<close> _ SyntaxError _ _ _ _ _
              "''Result: ''" \<open>''"situation":"x"''\<close> "'' done''",
           THEN conjunct2, THEN conjunct2, THEN conjunct2, THEN conjunct1, THEN mp])
       (intro conjI b1 no_tag_no_fence[OF b2] b3 b4 b5)
  then have r2: \<open>extractJSON sampleParse ''Result: {"situation":"x"} done''
      = Inr (JObject [(''situation'', JString ''x'')])\<close>
    unfolding b6 body by simp
  have n1: "parseAndNormalize sampleParse ''no json here'' = Inl SyntaxError"
    by (simp add: parseAndNormalize_def sampleParse_def)
  have n2: "\<not> str_includes ''no json here'' ''```json''" by simp
  have n3: "CHR ''{'' \<notin> set ''no json here''" by simp
  have r3: "extractJSON sampleParse ''no json here'' = Inr fallbackResult"
    by (rule extractJSON_one_candidate
          [of sampleParse "''no json here''" _ SyntaxError,
           THEN conjunct2, THEN conjunct2, THEN conjunct2, THEN conjunct2, THEN conjunct1,
           THEN mp])
       (intro conjI n1 no_tag_no_fence[OF n2] no_brace_no_span[OF n3])
  have r4: \<open>extractJSON sampleParse ''{"situation":"x"}'' = Inr (JObject [(''situation'', JString ''x'')])\<close>
    by (rule extractJSON_one_candidate
          [of sampleParse \<open>''{"situation":"x"}''\<close> "JObject [(''situation'', JString ''x'')]",
           THEN conjunct2, THEN conjunct1, THEN mp]) (rule body)
  show ?thesis
    by (intro conjI f1 f2 sp f4[THEN conjunct1] f4[THEN conjunct2] f5 r1 b1 b2 r2 n1 n3 r3 body r4)
qed

end
